theory Spec2Isabelle
  imports Complex_Main "HOL-Library.Log_Nat" "HOL-Library.Sublist" "HOL-Library.Word"
    "HOL-Library.Code_Target_Numeral"
begin

section \<open>JavaScript numbers\<close>

text \<open>
  A JavaScript number is an IEEE-754 binary64 value. It is modelled as a rational (the exact
  value of a finite double) or one of the three special values. The sign of zero is not
  modelled: \<open>-0\<close> and \<open>+0\<close> are both \<open>Fin 0\<close> (the divisors of the program are a viewport
  width and a byte count, both \<open>+0\<close> when zero).
\<close>

datatype jsnum = NaN | PosInf | NegInf | Fin rat

text \<open>\<open>ilog2 q\<close> is the binary exponent of a positive rational: \<open>2^e \<le> q < 2^(e+1)\<close>.\<close>

definition ilog2 :: "rat \<Rightarrow> int" where
  "ilog2 q = (case quotient_of q of (n, d) \<Rightarrow>
     (let k = int (floorlog 2 (nat n)) - int (floorlog 2 (nat d))
      in if 2 powi k \<le> q then k else k - 1))"

definition round_even :: "rat \<Rightarrow> int" where
  "round_even v = (let f = \<lfloor>v\<rfloor>; r = v - of_int f
     in if r < 1/2 then f else if 1/2 < r then f + 1 else if even f then f else f + 1)"

text \<open>
  Rounding of an exact result to binary64, round-to-nearest, ties-to-even: 53 significant
  bits, exponent at least \<open>-1022\<close> (below it the spacing stays \<open>2^-1074\<close>, the subnormal
  range), overflow to the infinities.
\<close>

definition fl :: "rat \<Rightarrow> jsnum" where
  "fl q = (if q = 0 then Fin 0
     else (let e = max (ilog2 \<bar>q\<bar>) (- 1022) - 52;
               r = of_int (round_even (q / 2 powi e)) * 2 powi e
           in if 2 ^ 1024 \<le> r then PosInf else if r \<le> - (2 ^ 1024) then NegInf else Fin r))"

text \<open>The operators \<open>/\<close>, \<open>*\<close> and \<open>-\<close> on numbers.\<close>

fun num_div :: "jsnum \<Rightarrow> jsnum \<Rightarrow> jsnum" where
  "num_div NaN _ = NaN"
| "num_div _ NaN = NaN"
| "num_div (Fin a) (Fin b) =
     (if b = 0 then (if a = 0 then NaN else if 0 < a then PosInf else NegInf) else fl (a / b))"
| "num_div (Fin a) _ = Fin 0"
| "num_div PosInf (Fin b) = (if 0 \<le> b then PosInf else NegInf)"
| "num_div NegInf (Fin b) = (if 0 \<le> b then NegInf else PosInf)"
| "num_div _ _ = NaN"

fun num_mul :: "jsnum \<Rightarrow> jsnum \<Rightarrow> jsnum" where
  "num_mul NaN _ = NaN"
| "num_mul _ NaN = NaN"
| "num_mul (Fin a) (Fin b) = fl (a * b)"
| "num_mul (Fin a) PosInf = (if a = 0 then NaN else if 0 < a then PosInf else NegInf)"
| "num_mul (Fin a) NegInf = (if a = 0 then NaN else if 0 < a then NegInf else PosInf)"
| "num_mul PosInf (Fin b) = (if b = 0 then NaN else if 0 < b then PosInf else NegInf)"
| "num_mul NegInf (Fin b) = (if b = 0 then NaN else if 0 < b then NegInf else PosInf)"
| "num_mul PosInf PosInf = PosInf"
| "num_mul NegInf NegInf = PosInf"
| "num_mul _ _ = NegInf"

fun num_sub :: "jsnum \<Rightarrow> jsnum \<Rightarrow> jsnum" where
  "num_sub NaN _ = NaN"
| "num_sub _ NaN = NaN"
| "num_sub (Fin a) (Fin b) = fl (a - b)"
| "num_sub (Fin a) PosInf = NegInf"
| "num_sub (Fin a) NegInf = PosInf"
| "num_sub PosInf PosInf = NaN"
| "num_sub NegInf NegInf = NaN"
| "num_sub PosInf _ = PosInf"
| "num_sub NegInf _ = NegInf"

text \<open>
  \<open>Math.round\<close>: the closest integer, a tie going to the larger one; \<open>Math.min\<close> and
  \<open>Math.max\<close>: \<open>NaN\<close> as soon as one argument is \<open>NaN\<close>.
\<close>

fun Math_round :: "jsnum \<Rightarrow> jsnum" where
  "Math_round (Fin v) = Fin (of_int \<lfloor>v + 1/2\<rfloor>)"
| "Math_round v = v"

fun Math_min :: "jsnum \<Rightarrow> jsnum \<Rightarrow> jsnum" where
  "Math_min NaN _ = NaN"
| "Math_min _ NaN = NaN"
| "Math_min NegInf _ = NegInf"
| "Math_min _ NegInf = NegInf"
| "Math_min PosInf b = b"
| "Math_min a PosInf = a"
| "Math_min (Fin a) (Fin b) = Fin (min a b)"

fun Math_max :: "jsnum \<Rightarrow> jsnum \<Rightarrow> jsnum" where
  "Math_max NaN _ = NaN"
| "Math_max _ NaN = NaN"
| "Math_max PosInf _ = PosInf"
| "Math_max _ PosInf = PosInf"
| "Math_max NegInf b = b"
| "Math_max a NegInf = a"
| "Math_max (Fin a) (Fin b) = Fin (max a b)"

text \<open>
  An integer of the program (a pixel count, a byte count) as a number: integers below
  \<open>2^53\<close> are doubles.
\<close>

definition num :: "nat \<Rightarrow> jsnum" where
  "num n = Fin (of_nat n)"

subsection \<open>Numbers as text\<close>

definition digit_char :: "nat \<Rightarrow> char" where
  "digit_char d = ''0123456789'' ! (d mod 10)"

fun show_nat :: "nat \<Rightarrow> string" where
  "show_nat n = (if n < 10 then [digit_char n] else show_nat (n div 10) @ [digit_char (n mod 10)])"

declare show_nat.simps [simp del]

text \<open>The decimal text of an integer, as a template literal prints it.\<close>

definition show_int :: "int \<Rightarrow> string" where
  "show_int i = (if i < 0 then ''-'' @ show_nat (nat (- i)) else show_nat (nat i))"

text \<open>
  \<open>x.toFixed(1)\<close>: the sign, then the integer \<open>n\<close> with \<open>n / 10\<close> closest to \<open>|x|\<close> (the
  larger one at a tie), printed with one decimal. (From \<open>10^21\<close> on \<open>toFixed\<close> switches to
  exponent notation; a ratio of byte counts times 100 is far below.)
\<close>

definition toFixed1 :: "jsnum \<Rightarrow> string" where
  "toFixed1 v = (case v of
       NaN \<Rightarrow> ''NaN''
     | PosInf \<Rightarrow> ''Infinity''
     | NegInf \<Rightarrow> ''-Infinity''
     | Fin x \<Rightarrow>
         (let n = nat \<lfloor>\<bar>x\<bar> * 10 + 1/2\<rfloor>
          in (if x < 0 then ''-'' else '''') @ show_nat (n div 10) @ ''.'' @ show_nat (n mod 10)))"

section \<open>Values received from the network\<close>

text \<open>
  A parsed JSON value. An object is the list of its own properties (keys unique, as
  \<open>JSON.parse\<close> leaves them).
\<close>

datatype json = JNull | JBool bool | JNum jsnum | JStr string | JArr "json list"
  | JObj "(string \<times> json) list"

text \<open>
  What a \<open>throw\<close> or a rejected promise carries: an \<open>Error\<close> object with its message, or
  some value that is not an \<open>Error\<close>.
\<close>

datatype thrown = JsError string | NonError

text \<open>Truthiness, of a value and of a property that may be \<open>undefined\<close> (\<open>None\<close>).\<close>

fun truthy :: "json \<Rightarrow> bool" where
  "truthy JNull = False"
| "truthy (JBool b) = b"
| "truthy (JNum n) = (n \<noteq> Fin 0 \<and> n \<noteq> NaN)"
| "truthy (JStr s) = (s \<noteq> [])"
| "truthy (JArr _) = True"
| "truthy (JObj _) = True"

fun truthy_opt :: "json option \<Rightarrow> bool" where
  "truthy_opt None = False"
| "truthy_opt (Some v) = truthy v"

definition TypeError_null :: "string \<Rightarrow> thrown" where
  "TypeError_null key =
     JsError (''Cannot read properties of null (reading '' @ [CHR 0x27] @ key @ [CHR 0x27] @ '')'')"

text \<open>
  \<open>v.key\<close> for one of the keys the program reads (\<open>token\<close>, \<open>server\<close>, \<open>task\<close>,
  \<open>server_filename\<close>, \<open>status\<close>, \<open>status_message\<close>, \<open>error\<close>, \<open>message\<close>, \<open>param\<close>): a
  \<open>TypeError\<close> on \<open>null\<close>, the property of an object, \<open>undefined\<close> on anything else.
\<close>

fun get_prop :: "json \<Rightarrow> string \<Rightarrow> thrown + json option" where
  "get_prop JNull key = Inl (TypeError_null key)"
| "get_prop (JObj kvs) key = Inr (map_of kvs key)"
| "get_prop _ key = Inr None"

text \<open>\<open>v?.key\<close>: \<open>undefined\<close> when \<open>v\<close> is \<open>undefined\<close> or \<open>null\<close>.\<close>

fun opt_get :: "json option \<Rightarrow> string \<Rightarrow> json option" where
  "opt_get (Some (JObj kvs)) key = map_of kvs key"
| "opt_get _ key = None"

text \<open>
  Functions of the JavaScript runtime that the program calls and that are taken as given:
  \<open>JSON.parse\<close> (\<open>None\<close> when it throws), \<open>JSON.stringify(v, null, 2)\<close>, the conversion of a
  value that is not a string to a string inside a template literal, and \<open>btoa\<close>.
\<close>

record platform =
  JSON_parse :: "string \<Rightarrow> json option"
  JSON_stringify :: "json \<Rightarrow> string"
  ToString :: "json \<Rightarrow> string"
  btoa :: "string \<Rightarrow> string"

definition js_string :: "platform \<Rightarrow> json \<Rightarrow> string" where
  "js_string P v = (case v of JStr s \<Rightarrow> s | _ \<Rightarrow> ToString P v)"

text \<open>\<open>`${v || fallback}`\<close>\<close>

definition or_text :: "platform \<Rightarrow> json option \<Rightarrow> string \<Rightarrow> string" where
  "or_text P v fallback = (if truthy_opt v then (case v of Some w \<Rightarrow> js_string P w | None \<Rightarrow> fallback)
     else fallback)"

type_synonym bytes = "8 word list"

text \<open>
  A \<open>Response\<close>: its status line and what each of the three body readers gives when
  awaited (\<open>Inl\<close>: the promise rejects). A \<open>fetch\<close> resolves to a response or rejects.
\<close>

record response =
  resp_ok :: bool
  resp_status :: nat
  resp_statusText :: string
  resp_text :: "thrown + string"
  resp_json :: "thrown + json"
  resp_blob :: "thrown + bytes"

type_synonym fetched = "thrown + response"

section \<open>Configuration\<close>

record iLoveIMGConfig =
  publicKey :: string
  secretKey :: string
  baseUrl :: string
  tool :: string
  authUrl :: string

datatype image_format = ImageJpeg | ImagePng

record imageConfig =
  cfg_width :: nat
  cfg_height :: nat
  cfg_format :: image_format

definition format_text :: "image_format \<Rightarrow> string" where
  "format_text f = (case f of ImageJpeg \<Rightarrow> ''image/jpeg'' | ImagePng \<Rightarrow> ''image/png'')"

definition extension :: "imageConfig \<Rightarrow> string" where
  "extension c = (if cfg_format c = ImagePng then ''png'' else ''jpg'')"

section \<open>The compression session\<close>

text \<open>
  The module-level \<open>cachedToken\<close>, and the requests sent to the network so far, oldest
  first.
\<close>

datatype request =
    Authenticate string string
  | StartTask string json
  | Upload json json bytes json
  | Process json json string json json
  | Download json json json

record state =
  cachedToken :: "(json \<times> int) option"
  requests :: "request list"

definition send :: "request \<Rightarrow> state \<Rightarrow> state" where
  "send r st = st\<lparr>requests := requests st @ [r]\<rparr>"

definition TOKEN_VALIDITY_MS :: int where
  "TOKEN_VALIDITY_MS = 2 * 60 * 60 * 1000"

definition config_error_message :: string where
  "config_error_message = ''iLoveIMG Public Key not configured. ''
     @ ''Please create a .env file in the project root and add: ''
     @ ''PLASMO_PUBLIC_ILOVEIMG_PUBLIC_KEY=your_public_key_here''"

text \<open>
  The branch \<open>if (!response.ok)\<close> of a step: the body text is awaited (for the log), then
  the error with the status line is thrown.
\<close>

definition status_failure :: "string \<Rightarrow> response \<Rightarrow> thrown" where
  "status_failure label r = (case resp_text r of
       Inl e \<Rightarrow> e
     | Inr errorText \<Rightarrow>
         JsError (label @ '': '' @ show_nat (resp_status r) @ '' '' @ resp_statusText r))"

text \<open>
  \<open>getAuthToken\<close>, given the reply of the authentication endpoint (used only when a request
  is made) and the value of \<open>Date.now()\<close>. The result is the token or what is thrown.
\<close>

definition valid_cached :: "state \<Rightarrow> int \<Rightarrow> json option" where
  "valid_cached st now = (case cachedToken st of
       None \<Rightarrow> None
     | Some (token, expiresAt) \<Rightarrow> if now < expiresAt then Some token else None)"

definition getAuthToken :: "iLoveIMGConfig \<Rightarrow> fetched \<Rightarrow> int \<Rightarrow> state \<Rightarrow> (thrown + json) \<times> state" where
  "getAuthToken cfg reply now st =
     (if publicKey cfg = [] then (Inl (JsError config_error_message), st)
      else (case valid_cached st now of
          Some token \<Rightarrow> (Inr token, st)
        | None \<Rightarrow>
            (let st' = send (Authenticate (authUrl cfg) (publicKey cfg)) st
             in (case reply of
                 Inl e \<Rightarrow> (Inl e, st')
               | Inr r \<Rightarrow>
                   if \<not> resp_ok r then (Inl (status_failure ''Authentication failed'' r), st')
                   else (case resp_json r of
                       Inl e \<Rightarrow> (Inl e, st')
                     | Inr data \<Rightarrow>
                         (case get_prop data ''token'' of
                             Inl e \<Rightarrow> (Inl e, st')
                           | Inr token \<Rightarrow>
                               if \<not> truthy_opt token
                               then (Inl (JsError ''No token received from authentication endpoint''), st')
                               else (case token of
                                   None \<Rightarrow> (Inl (JsError ''No token received from authentication endpoint''), st')
                                 | Some t \<Rightarrow>
                                     (Inr t, st'\<lparr>cachedToken := Some (t, now + TOKEN_VALIDITY_MS)\<rparr>))))))))"

text \<open>
  \<open>getAuthToken\<close> is an \<open>async\<close> function: a call runs up to \<open>await fetch(...)\<close>, where other
  calls may run, and goes on once the reply is there. The first part of a call ends with
  its result (the configuration error or the cached token) or waiting for the reply, the
  request sent and the time read at the start kept; the second part is what follows the
  \<open>fetch\<close>, the only place where \<open>cachedToken\<close> is written.
\<close>

datatype auth_call = Settled "thrown + json" | Awaiting int

definition getAuthToken_begin :: "iLoveIMGConfig \<Rightarrow> int \<Rightarrow> state \<Rightarrow> auth_call \<times> state" where
  "getAuthToken_begin cfg now st =
     (if publicKey cfg = [] then (Settled (Inl (JsError config_error_message)), st)
      else (case valid_cached st now of
          Some token \<Rightarrow> (Settled (Inr token), st)
        | None \<Rightarrow> (Awaiting now, send (Authenticate (authUrl cfg) (publicKey cfg)) st)))"

definition getAuthToken_resume :: "fetched \<Rightarrow> int \<Rightarrow> state \<Rightarrow> (thrown + json) \<times> state" where
  "getAuthToken_resume reply now st' =
     (case reply of
         Inl e \<Rightarrow> (Inl e, st')
       | Inr r \<Rightarrow>
           if \<not> resp_ok r then (Inl (status_failure ''Authentication failed'' r), st')
           else (case resp_json r of
               Inl e \<Rightarrow> (Inl e, st')
             | Inr data \<Rightarrow>
                 (case get_prop data ''token'' of
                     Inl e \<Rightarrow> (Inl e, st')
                   | Inr token \<Rightarrow>
                       if \<not> truthy_opt token
                       then (Inl (JsError ''No token received from authentication endpoint''), st')
                       else (case token of
                           None \<Rightarrow> (Inl (JsError ''No token received from authentication endpoint''), st')
                         | Some t \<Rightarrow>
                             (Inr t, st'\<lparr>cachedToken := Some (t, now + TOKEN_VALIDITY_MS)\<rparr>)))))"

text \<open>
  Two calls that overlap: the second call starts while the first one waits for its reply;
  then the first reply arrives, then the second. The results of the two calls, in the
  order of the calls.
\<close>

definition getAuthToken_overlapped ::
  "iLoveIMGConfig \<Rightarrow> fetched \<Rightarrow> int \<Rightarrow> fetched \<Rightarrow> int \<Rightarrow> state
    \<Rightarrow> ((thrown + json) \<times> (thrown + json)) \<times> state" where
  "getAuthToken_overlapped cfg reply1 now1 reply2 now2 st =
     (case getAuthToken_begin cfg now1 st of
         (Settled result1, st1) \<Rightarrow>
           (case getAuthToken cfg reply2 now2 st1 of
               (result2, st2) \<Rightarrow> ((result1, result2), st2))
       | (Awaiting started1, st1) \<Rightarrow>
           (case getAuthToken_begin cfg now2 st1 of
               (Settled result2, st2) \<Rightarrow>
                 (case getAuthToken_resume reply1 started1 st2 of
                     (result1, st3) \<Rightarrow> ((result1, result2), st3))
             | (Awaiting started2, st2) \<Rightarrow>
                 (case getAuthToken_resume reply1 started1 st2 of
                     (result1, st3) \<Rightarrow>
                       (case getAuthToken_resume reply2 started2 st3 of
                           (result2, st4) \<Rightarrow> ((result1, result2), st4)))))"

section \<open>The compression workflow\<close>

text \<open>
  The replies of the five endpoints, in the order of the steps. Each is read only if its
  step is reached.
\<close>

record network =
  auth_reply :: fetched
  start_reply :: fetched
  upload_reply :: fetched
  process_reply :: fetched
  download_reply :: fetched

datatype details = Fallback | Sizes nat nat string

record outcome =
  out_blob :: bytes
  out_compressed :: bool
  out_error :: "string option"
  out_details :: details

text \<open>The size reduction as \<open>compressImage\<close> reports it.\<close>

definition reduction :: "nat \<Rightarrow> nat \<Rightarrow> string" where
  "reduction compressedSize originalSize =
     toFixed1 (num_mul (num_sub (Fin 1) (num_div (num compressedSize) (num originalSize))) (Fin 100))
       @ ''%''"

text \<open>
  Step 2, from the reply of \<open>GET /v1/start/{tool}\<close>: the pair (server, task), or what is
  thrown.
\<close>

definition start_failure :: "platform \<Rightarrow> response \<Rightarrow> thrown" where
  "start_failure P r = (case resp_text r of
       Inl e \<Rightarrow> e
     | Inr errorText \<Rightarrow>
         (let errorJson = (case JSON_parse P errorText of None \<Rightarrow> JNull | Some j \<Rightarrow> j);
              errorMessage =
                or_text P (opt_get (opt_get (Some errorJson) ''error'') ''message'')
                  (or_text P (opt_get (Some errorJson) ''message'')
                     (if errorText \<noteq> [] then errorText else resp_statusText r));
              param = opt_get (opt_get (Some errorJson) ''error'') ''param'';
              errorParam = (case param of
                  None \<Rightarrow> []
                | Some v \<Rightarrow> if truthy v then JSON_stringify P v else [])
          in JsError (''Start task failed ('' @ show_nat (resp_status r) @ ''): '' @ errorMessage
               @ (if errorParam \<noteq> [] then [CHR 0x0A] @ ''Details: '' @ errorParam else []))))"

definition compress_start :: "platform \<Rightarrow> fetched \<Rightarrow> thrown + (json \<times> json)" where
  "compress_start P reply = (case reply of
       Inl e \<Rightarrow> Inl e
     | Inr r \<Rightarrow>
         if \<not> resp_ok r then Inl (start_failure P r)
         else (case resp_json r of
             Inl e \<Rightarrow> Inl e
           | Inr startData \<Rightarrow>
               (case startData of
                   JNull \<Rightarrow> Inl (JsError (''Cannot destructure property '' @ [CHR 0x27] @ ''server''
                              @ [CHR 0x27] @ '' of '' @ [CHR 0x27] @ ''startData'' @ [CHR 0x27]
                              @ '' as it is null.''))
                 | _ \<Rightarrow>
                     (case (opt_get (Some startData) ''server'', opt_get (Some startData) ''task'') of
                         (Some server, Some task) \<Rightarrow>
                           if \<not> truthy server \<or> \<not> truthy task
                           then Inl (JsError ''Invalid response from start endpoint'')
                           else Inr (server, task)
                       | _ \<Rightarrow> Inl (JsError ''Invalid response from start endpoint'')))))"

text \<open>Step 3, from the reply of \<open>POST /v1/upload\<close>: the server filename.\<close>

definition compress_upload :: "fetched \<Rightarrow> thrown + json" where
  "compress_upload reply = (case reply of
       Inl e \<Rightarrow> Inl e
     | Inr r \<Rightarrow>
         if \<not> resp_ok r then Inl (status_failure ''Upload failed'' r)
         else (case resp_json r of
             Inl e \<Rightarrow> Inl e
           | Inr uploadData \<Rightarrow>
               (case get_prop uploadData ''server_filename'' of
                   Inl e \<Rightarrow> Inl e
                 | Inr None \<Rightarrow> Inl (JsError ''Invalid response from upload endpoint'')
                 | Inr (Some serverFilename) \<Rightarrow>
                     if \<not> truthy serverFilename
                     then Inl (JsError ''Invalid response from upload endpoint'')
                     else Inr serverFilename)))"

text \<open>Step 4, from the reply of \<open>POST /v1/process\<close>.\<close>

definition compress_process :: "platform \<Rightarrow> fetched \<Rightarrow> thrown + unit" where
  "compress_process P reply = (case reply of
       Inl e \<Rightarrow> Inl e
     | Inr r \<Rightarrow>
         if \<not> resp_ok r then Inl (status_failure ''Process failed'' r)
         else (case resp_json r of
             Inl e \<Rightarrow> Inl e
           | Inr processData \<Rightarrow>
               (case get_prop processData ''status'' of
                   Inl e \<Rightarrow> Inl e
                 | Inr status \<Rightarrow>
                     if status \<noteq> Some (JStr ''TaskSuccess'')
                     then Inl (JsError (''Processing failed: ''
                            @ or_text P (opt_get (Some processData) ''status_message'') ''Unknown error''))
                     else Inr ())))"

text \<open>Step 5, from the reply of \<open>GET /v1/download/{task}\<close>: the processed bytes.\<close>

definition compress_download :: "fetched \<Rightarrow> thrown + bytes" where
  "compress_download reply = (case reply of
       Inl e \<Rightarrow> Inl e
     | Inr r \<Rightarrow>
         if \<not> resp_ok r then Inl (status_failure ''Download failed'' r)
         else resp_blob r)"

text \<open>
  The body of the \<open>try\<close> block of \<open>compressImage\<close>: the five steps in order, each request
  recorded when it is sent, the first \<open>throw\<close> ending the block.
\<close>

definition compressImage_try ::
  "platform \<Rightarrow> iLoveIMGConfig \<Rightarrow> network \<Rightarrow> int \<Rightarrow> bytes \<Rightarrow> state \<Rightarrow> (thrown + outcome) \<times> state" where
  "compressImage_try P cfg net now imageBlob st =
     (case getAuthToken cfg (auth_reply net) now st of
         (Inl e, st1) \<Rightarrow> (Inl e, st1)
       | (Inr token, st1) \<Rightarrow>
           (let st2 = send (StartTask (baseUrl cfg @ ''/v1/start/'' @ tool cfg) token) st1
            in (case compress_start P (start_reply net) of
                Inl e \<Rightarrow> (Inl e, st2)
              | Inr (server, task) \<Rightarrow>
                  (let st3 = send (Upload server task imageBlob token) st2
                   in (case compress_upload (upload_reply net) of
                       Inl e \<Rightarrow> (Inl e, st3)
                     | Inr serverFilename \<Rightarrow>
                         (let st4 = send (Process server task (tool cfg) serverFilename token) st3
                          in (case compress_process P (process_reply net) of
                              Inl e \<Rightarrow> (Inl e, st4)
                            | Inr u \<Rightarrow>
                                (let st5 = send (Download server task token) st4
                                 in (case compress_download (download_reply net) of
                                     Inl e \<Rightarrow> (Inl e, st5)
                                   | Inr compressedBlob \<Rightarrow>
                                       (Inr \<lparr>out_blob = compressedBlob, out_compressed = True,
                                              out_error = None,
                                              out_details = Sizes (length imageBlob) (length compressedBlob)
                                                (reduction (length compressedBlob) (length imageBlob))\<rparr>,
                                        st5))))))))))"

text \<open>\<open>compressImage\<close>: the \<open>try\<close> block and its \<open>catch\<close>, which returns the original image.\<close>

definition compressImage ::
  "platform \<Rightarrow> iLoveIMGConfig \<Rightarrow> network \<Rightarrow> int \<Rightarrow> bytes \<Rightarrow> state \<Rightarrow> outcome \<times> state" where
  "compressImage P cfg net now imageBlob st =
     (case compressImage_try P cfg net now imageBlob st of
         (Inr result, st') \<Rightarrow> (result, st')
       | (Inl error, st') \<Rightarrow>
           (let errorMessage = (case error of JsError message \<Rightarrow> message | NonError \<Rightarrow> ''Unknown error'')
            in (\<lparr>out_blob = imageBlob, out_compressed = False, out_error = Some errorMessage,
                 out_details = Fallback\<rparr>, st')))"

section \<open>Cropping\<close>

text \<open>
  A rectangle of numbers: the selection in viewport units, and the crop rectangle in
  screenshot pixels.
\<close>

record bounds =
  b_x :: jsnum
  b_y :: jsnum
  b_width :: jsnum
  b_height :: jsnum

text \<open>
  An \<open>ImageBitmap\<close>; its \<open>width\<close> and \<open>height\<close> are 32-bit unsigned integers. A tab, and what
  the browser gives back to \<open>processImage\<close>: the decoded screenshot, the viewport size read
  in the tab by \<open>chrome.scripting.executeScript\<close> (\<open>window.innerWidth\<close> and
  \<open>window.innerHeight\<close>, non-negative integers; \<open>None\<close> when there is no result), and the
  outcome of each canvas operation.
\<close>

record imageBitmap =
  bm_width :: "32 word"
  bm_height :: "32 word"
  bm_data :: bytes

record tab =
  tab_id :: nat

record canvas_results =
  crop_context :: "thrown + bool"
  crop_draw :: "thrown + unit"
  target_context :: "thrown + bool"
  target_draw :: "thrown + unit"
  convertToBlob :: "thrown + bytes"

record browser =
  captureVisibleTab :: "thrown + string"
  tabs_get :: "nat \<Rightarrow> thrown + tab"
  createImageBitmap :: "string \<Rightarrow> thrown + imageBitmap"
  executeScript :: "tab \<Rightarrow> thrown + (nat \<times> nat) option"
  canvas :: "imageBitmap \<Rightarrow> bounds \<Rightarrow> nat \<Rightarrow> nat \<Rightarrow> canvas_results"

text \<open>
  The viewport size \<open>processImage\<close> works with: the screenshot size, replaced by the size
  read in the tab when there is a tab and the script gives a result.
\<close>

definition processImage_viewport :: "browser \<Rightarrow> imageBitmap \<Rightarrow> tab option \<Rightarrow> nat \<times> nat" where
  "processImage_viewport B imageBitmap tabInfo =
     (let screenshotWidth = unat (bm_width imageBitmap);
          screenshotHeight = unat (bm_height imageBitmap)
      in (case tabInfo of
          None \<Rightarrow> (screenshotWidth, screenshotHeight)
        | Some t \<Rightarrow>
            (case executeScript B t of
                Inl error \<Rightarrow> (screenshotWidth, screenshotHeight)
              | Inr None \<Rightarrow> (screenshotWidth, screenshotHeight)
              | Inr (Some (width, height)) \<Rightarrow> (width, height))))"

text \<open>
  The crop rectangle of \<open>processImage\<close>: scale factors, scaled and rounded selection, then
  the clamping into the screenshot.
\<close>

definition processImage_region :: "bounds \<Rightarrow> nat \<Rightarrow> nat \<Rightarrow> nat \<Rightarrow> nat \<Rightarrow> bounds" where
  "processImage_region cropBounds screenshotWidth screenshotHeight viewportWidth viewportHeight =
     (let scaleX = num_div (num screenshotWidth) (num viewportWidth);
          scaleY = num_div (num screenshotHeight) (num viewportHeight);
          scaledX = Math_round (num_mul (b_x cropBounds) scaleX);
          scaledY = Math_round (num_mul (b_y cropBounds) scaleY);
          scaledWidth = Math_round (num_mul (b_width cropBounds) scaleX);
          scaledHeight = Math_round (num_mul (b_height cropBounds) scaleY);
          finalX = Math_max (Fin 0) (Math_min scaledX (num_sub (num screenshotWidth) (Fin 1)));
          finalY = Math_max (Fin 0) (Math_min scaledY (num_sub (num screenshotHeight) (Fin 1)));
          finalWidth = Math_min scaledWidth (num_sub (num screenshotWidth) finalX);
          finalHeight = Math_min scaledHeight (num_sub (num screenshotHeight) finalY)
      in \<lparr>b_x = finalX, b_y = finalY, b_width = finalWidth, b_height = finalHeight\<rparr>)"

text \<open>The coordinate mapping from a selection, a viewport and a raw capture.\<close>

definition map_selection :: "bounds \<Rightarrow> nat \<times> nat \<Rightarrow> imageBitmap \<Rightarrow> bounds" where
  "map_selection selection viewport raw =
     processImage_region selection (unat (bm_width raw)) (unat (bm_height raw))
       (fst viewport) (snd viewport)"

definition processImage ::
  "browser \<Rightarrow> string \<Rightarrow> bounds \<Rightarrow> nat \<Rightarrow> nat \<Rightarrow> tab option \<Rightarrow> thrown + bytes" where
  "processImage B imageData cropBounds targetWidth targetHeight tabInfo =
     (case createImageBitmap B imageData of
         Inl e \<Rightarrow> Inl e
       | Inr imageBitmap \<Rightarrow>
           (let region = map_selection cropBounds (processImage_viewport B imageBitmap tabInfo) imageBitmap;
                c = canvas B imageBitmap region targetWidth targetHeight
            in (case crop_context c of
                Inl e \<Rightarrow> Inl e
              | Inr False \<Rightarrow> Inl (JsError ''Failed to get crop canvas context'')
              | Inr True \<Rightarrow>
                  (case crop_draw c of
                      Inl e \<Rightarrow> Inl e
                    | Inr u \<Rightarrow>
                        (case target_context c of
                            Inl e \<Rightarrow> Inl e
                          | Inr False \<Rightarrow> Inl (JsError ''Failed to get target canvas context'')
                          | Inr True \<Rightarrow>
                              (case target_draw c of
                                  Inl e \<Rightarrow> Inl e
                                | Inr u \<Rightarrow> convertToBlob c))))))"

section \<open>The capture handler\<close>

record message =
  msg_tabId :: nat
  msg_bounds :: bounds
  msg_templateId :: "string option"

text \<open>The returned object literal: its keys and values, in order.\<close>

datatype jsval = VBool bool | VStr string

type_synonym js_object = "(string \<times> jsval) list"

text \<open>The file name; \<open>now\<close> is the value of \<open>Date.now()\<close>.\<close>

definition capture_filename :: "imageConfig \<Rightarrow> string option \<Rightarrow> int \<Rightarrow> string" where
  "capture_filename ic templateId now = (case templateId of
       None \<Rightarrow> ''thumbnail-'' @ show_int now @ ''.'' @ extension ic
     | Some s \<Rightarrow>
         if s \<noteq> [] then s @ ''.'' @ extension ic
         else ''thumbnail-'' @ show_int now @ ''.'' @ extension ic)"

text \<open>The loop that turns the bytes into a binary string, 8192 at a time.\<close>

function chunk_loop :: "bytes \<Rightarrow> nat \<Rightarrow> string \<Rightarrow> string" where
  "chunk_loop uint8Array i binaryString =
     (if i < length uint8Array
      then chunk_loop uint8Array (i + 8192)
             (binaryString @ map (\<lambda>b. char_of (unat b)) (take 8192 (drop i uint8Array)))
      else binaryString)"
  by pat_completeness auto
termination
  by (relation "measure (\<lambda>(a, i, s). length a - i)") auto

declare chunk_loop.simps [simp del]

text \<open>
  \<open>handleScreenshotCapture\<close>. \<open>now_auth\<close> and \<open>now_name\<close> are the values of \<open>Date.now()\<close> in
  \<open>getAuthToken\<close> and at the file name. The \<open>catch\<close> block rethrows.
\<close>

definition handleScreenshotCapture ::
  "platform \<Rightarrow> browser \<Rightarrow> iLoveIMGConfig \<Rightarrow> imageConfig \<Rightarrow> network \<Rightarrow> int \<Rightarrow> int \<Rightarrow> message \<Rightarrow> state
     \<Rightarrow> (thrown + js_object) \<times> state" where
  "handleScreenshotCapture P B cfg ic net now_auth now_name msg st =
     (case captureVisibleTab B of
         Inl e \<Rightarrow> (Inl e, st)
       | Inr dataUrl \<Rightarrow>
           if dataUrl = [] then (Inl (JsError ''Failed to capture screenshot''), st)
           else (case tabs_get B (msg_tabId msg) of
               Inl e \<Rightarrow> (Inl e, st)
             | Inr t \<Rightarrow>
                 (case processImage B dataUrl (msg_bounds msg) (cfg_width ic) (cfg_height ic) (Some t) of
                     Inl e \<Rightarrow> (Inl e, st)
                   | Inr resizedBlob \<Rightarrow>
                       (case compressImage P cfg net now_auth resizedBlob st of
                           (compressionResult, st') \<Rightarrow>
                             (let finalBlob = out_blob compressionResult;
                                  filename = capture_filename ic (msg_templateId msg) now_name;
                                  base64 = btoa P (chunk_loop finalBlob 0 []);
                                  imageDataUrl = ''data:'' @ format_text (cfg_format ic) @ '';base64,''
                                    @ base64
                              in (Inr [(''success'', VBool True), (''filename'', VStr filename),
                                       (''imageDataUrl'', VStr imageDataUrl)], st'))))))"

section \<open>Notions used by the properties\<close>

text \<open>
  The failures of a step named by the specification: a network error, a non-success HTTP
  status, a malformed body, a missing (or empty) required field of the JSON body.
\<close>

definition reply_failed :: "string list \<Rightarrow> fetched \<Rightarrow> bool" where
  "reply_failed required reply = (case reply of
       Inl e \<Rightarrow> True
     | Inr r \<Rightarrow> \<not> resp_ok r \<or> (case resp_json r of
           Inl e \<Rightarrow> True
         | Inr d \<Rightarrow> list_ex (\<lambda>k. \<not> truthy_opt (opt_get (Some d) k)) required))"

definition download_failed :: "fetched \<Rightarrow> bool" where
  "download_failed reply = (case reply of
       Inl e \<Rightarrow> True
     | Inr r \<Rightarrow> \<not> resp_ok r \<or> (case resp_blob r of Inl e \<Rightarrow> True | Inr b \<Rightarrow> False))"

text \<open>
  The status field of a response: the property \<open>status\<close> of its JSON body, \<open>undefined\<close> when
  there is no such body or no such property.
\<close>

definition status_field :: "response \<Rightarrow> json option" where
  "status_field r = (case resp_json r of Inl e \<Rightarrow> None | Inr d \<Rightarrow> opt_get (Some d) ''status'')"

definition auth_request :: "iLoveIMGConfig \<Rightarrow> request" where
  "auth_request cfg = Authenticate (authUrl cfg) (publicKey cfg)"

fun is_download :: "request \<Rightarrow> bool" where
  "is_download (Download server task token) = True"
| "is_download _ = False"

text \<open>
  \<open>String.prototype.trim\<close> on the white space of ASCII (space, tab, line feed, vertical
  tab, form feed, carriage return), and the file name as the specification words it: the
  template identifier when it is a non-empty trimmed string.
\<close>

definition js_space :: "char \<Rightarrow> bool" where
  "js_space c = (c \<in> set [CHR 0x20, CHR 0x09, CHR 0x0A, CHR 0x0B, CHR 0x0C, CHR 0x0D])"

definition trim :: "string \<Rightarrow> string" where
  "trim s = rev (dropWhile js_space (rev (dropWhile js_space s)))"

definition spec_filename :: "imageConfig \<Rightarrow> string option \<Rightarrow> int \<Rightarrow> string" where
  "spec_filename ic templateId now = (case templateId of
       None \<Rightarrow> ''thumbnail-'' @ show_int now @ ''.'' @ extension ic
     | Some s \<Rightarrow>
         if s \<noteq> [] \<and> trim s = s then s @ ''.'' @ extension ic
         else ''thumbnail-'' @ show_int now @ ''.'' @ extension ic)"

text \<open>
  The region lies fully within the raster: on each axis the origin is in \<open>[0, n)\<close>, the
  extent is not negative and origin plus extent is at most \<open>n\<close> (all of them numbers, not
  \<open>NaN\<close> or an infinity). The selection lies within the viewport and has non-negative
  width and height.
\<close>

fun axis_inside :: "jsnum \<Rightarrow> jsnum \<Rightarrow> nat \<Rightarrow> bool" where
  "axis_inside (Fin x) (Fin w) n = (0 \<le> x \<and> x < of_nat n \<and> 0 \<le> w \<and> x + w \<le> of_nat n)"
| "axis_inside _ _ _ = False"

definition region_within :: "bounds \<Rightarrow> nat \<Rightarrow> nat \<Rightarrow> bool" where
  "region_within r pixelWidth pixelHeight =
     (axis_inside (b_x r) (b_width r) pixelWidth \<and> axis_inside (b_y r) (b_height r) pixelHeight)"

fun axis_in_viewport :: "jsnum \<Rightarrow> jsnum \<Rightarrow> nat \<Rightarrow> bool" where
  "axis_in_viewport (Fin x) (Fin w) n = (0 \<le> x \<and> 0 \<le> w \<and> x + w \<le> of_nat n)"
| "axis_in_viewport _ _ _ = False"

definition selection_in_viewport :: "bounds \<Rightarrow> nat \<times> nat \<Rightarrow> bool" where
  "selection_in_viewport sel viewport =
     (axis_in_viewport (b_x sel) (b_width sel) (fst viewport)
      \<and> axis_in_viewport (b_y sel) (b_height sel) (snd viewport))"

text \<open>
  The coordinate mapping as the specification words it. Its quotients and products are
  those of JavaScript numbers; the rest is stated on exact numbers: the comparison of
  numbers (false as soon as one is \<open>NaN\<close>), a number lying in an interval, clamping into an
  interval (the point of the interval closest to the number: there is none for \<open>NaN\<close>, nor
  when the interval is empty), rounding to the nearest integer, the smaller of two
  numbers.
\<close>

fun num_less :: "jsnum \<Rightarrow> jsnum \<Rightarrow> bool" where
  "num_less NaN _ = False"
| "num_less _ NaN = False"
| "num_less (Fin a) (Fin b) = (a < b)"
| "num_less NegInf NegInf = False"
| "num_less NegInf _ = True"
| "num_less _ PosInf = True"
| "num_less _ _ = False"

fun finite_num :: "jsnum \<Rightarrow> bool" where
  "finite_num (Fin a) = True"
| "finite_num _ = False"

fun in_interval :: "jsnum \<Rightarrow> rat \<Rightarrow> rat \<Rightarrow> bool" where
  "in_interval (Fin a) lo hi = (lo \<le> a \<and> a \<le> hi)"
| "in_interval _ lo hi = False"

definition clamp_into :: "rat \<Rightarrow> rat \<Rightarrow> jsnum \<Rightarrow> rat option" where
  "clamp_into lo hi v =
     (if hi < lo then None
      else (case v of
          NaN \<Rightarrow> None
        | PosInf \<Rightarrow> Some hi
        | NegInf \<Rightarrow> Some lo
        | Fin a \<Rightarrow> Some (if a < lo then lo else if hi < a then hi else a)))"

definition nearest_integer :: "jsnum \<Rightarrow> jsnum" where
  "nearest_integer v = (case v of Fin a \<Rightarrow> Fin (of_int (round a)) | _ \<Rightarrow> v)"

definition smaller_of :: "jsnum \<Rightarrow> jsnum \<Rightarrow> jsnum" where
  "smaller_of a b = (if num_less b a then b else a)"

text \<open>
  The rectangle the specification describes, when there is one: \<open>None\<close> when \<open>x\<close> or \<open>y\<close>
  cannot be clamped into its interval.
\<close>

definition spec_map :: "bounds \<Rightarrow> nat \<times> nat \<Rightarrow> imageBitmap \<Rightarrow> bounds option" where
  "spec_map selection viewport raw =
     (let pixelWidth = (of_nat (unat (bm_width raw)) :: rat);
          pixelHeight = (of_nat (unat (bm_height raw)) :: rat);
          scaleX = num_div (Fin pixelWidth) (num (fst viewport));
          scaleY = num_div (Fin pixelHeight) (num (snd viewport));
          scaledWidth = nearest_integer (num_mul (b_width selection) scaleX);
          scaledHeight = nearest_integer (num_mul (b_height selection) scaleY)
      in (case clamp_into 0 (pixelWidth - 1) (nearest_integer (num_mul (b_x selection) scaleX)) of
          None \<Rightarrow> None
        | Some x \<Rightarrow>
            (case clamp_into 0 (pixelHeight - 1) (nearest_integer (num_mul (b_y selection) scaleY)) of
                None \<Rightarrow> None
              | Some y \<Rightarrow>
                  Some \<lparr>b_x = Fin x, b_y = Fin y,
                        b_width = smaller_of scaledWidth (Fin (pixelWidth - x)),
                        b_height = smaller_of scaledHeight (Fin (pixelHeight - y))\<rparr>)))"

text \<open>
  The reduction as the specification words it: \<open>(1 - compressedSize / originalSize) * 100\<close>
  on exact numbers, rounded to one decimal place (a tie going up).
\<close>

definition spec_reduction :: "nat \<Rightarrow> nat \<Rightarrow> rat" where
  "spec_reduction compressedSize originalSize =
     of_int (round ((1 - of_nat compressedSize / of_nat originalSize :: rat) * 100 * 10)) / 10"

subsection \<open>Sample inputs\<close>

definition sample_platform :: platform where
  "sample_platform = \<lparr>JSON_parse = (\<lambda>s. None), JSON_stringify = (\<lambda>v. ''{}''),
     ToString = (\<lambda>v. ''[object Object]''), btoa = (\<lambda>s. s)\<rparr>"

definition sample_config :: iLoveIMGConfig where
  "sample_config = \<lparr>publicKey = ''project_public_key'', secretKey = [],
     baseUrl = ''https://api.iloveimg.com'', tool = ''compressimage'',
     authUrl = ''https://api.iloveimg.com/v1/auth''\<rparr>"

definition unconfigured :: iLoveIMGConfig where
  "unconfigured = sample_config\<lparr>publicKey := []\<rparr>"

definition json_reply :: "json \<Rightarrow> fetched" where
  "json_reply j = Inr \<lparr>resp_ok = True, resp_status = 200, resp_statusText = ''OK'',
     resp_text = Inr [], resp_json = Inr j, resp_blob = Inr []\<rparr>"

definition blob_reply :: "bytes \<Rightarrow> fetched" where
  "blob_reply b = Inr \<lparr>resp_ok = True, resp_status = 200, resp_statusText = ''OK'',
     resp_text = Inr [], resp_json = Inl (JsError ''Unexpected token''), resp_blob = Inr b\<rparr>"

definition token_reply :: fetched where
  "token_reply = json_reply (JObj [(''token'', JStr ''tok-1'')])"

definition sample_network :: "bytes \<Rightarrow> network" where
  "sample_network compressed = \<lparr>auth_reply = token_reply,
     start_reply = json_reply (JObj [(''server'', JStr ''api1.iloveimg.com''), (''task'', JStr ''task-1'')]),
     upload_reply = json_reply (JObj [(''server_filename'', JStr ''file-1.jpg'')]),
     process_reply = json_reply (JObj [(''status'', JStr ''TaskSuccess'')]),
     download_reply = blob_reply compressed\<rparr>"

text \<open>
  An answer \<open>400 Bad Request\<close> whose body is \<open>{"status":"TaskError"}\<close>.
\<close>

definition task_error_text :: string where
  "task_error_text = ''{'' @ [CHR 0x22] @ ''status'' @ [CHR 0x22] @ '':'' @ [CHR 0x22]
     @ ''TaskError'' @ [CHR 0x22] @ ''}''"

definition bad_request_reply :: fetched where
  "bad_request_reply = Inr \<lparr>resp_ok = False, resp_status = 400, resp_statusText = ''Bad Request'',
     resp_text = Inr task_error_text, resp_json = Inr (JObj [(''status'', JStr ''TaskError'')]),
     resp_blob = Inr []\<rparr>"

definition empty_state :: state where
  "empty_state = \<lparr>cachedToken = None, requests = []\<rparr>"

definition sample_bitmap :: imageBitmap where
  "sample_bitmap = \<lparr>bm_width = 1280, bm_height = 720, bm_data = []\<rparr>"

definition sample_browser :: browser where
  "sample_browser = \<lparr>captureVisibleTab = Inr ''data:image/png;base64,iVBORw0KGgo='',
     tabs_get = (\<lambda>i. Inr \<lparr>tab_id = i\<rparr>),
     createImageBitmap = (\<lambda>s. Inr sample_bitmap),
     executeScript = (\<lambda>t. Inr (Some (1280, 720))),
     canvas = (\<lambda>bm r w h. \<lparr>crop_context = Inr True, crop_draw = Inr (), target_context = Inr True,
       target_draw = Inr (), convertToBlob = Inr []\<rparr>)\<rparr>"

definition sample_imageConfig :: imageConfig where
  "sample_imageConfig = \<lparr>cfg_width = 560, cfg_height = 315, cfg_format = ImageJpeg\<rparr>"

definition sample_message :: "string option \<Rightarrow> message" where
  "sample_message templateId = \<lparr>msg_tabId = 7,
     msg_bounds = \<lparr>b_x = Fin 100, b_y = Fin 100, b_width = Fin 320, b_height = Fin 180\<rparr>,
     msg_templateId = templateId\<rparr>"


definition retina_bitmap :: imageBitmap where
  "retina_bitmap = \<lparr>bm_width = 2560, bm_height = 1440, bm_data = []\<rparr>"

definition blob_of_size :: "nat \<Rightarrow> bytes" where
  "blob_of_size n = replicate n 0"

definition zero_selection :: bounds where
  "zero_selection = \<lparr>b_x = Fin 0, b_y = Fin 0, b_width = Fin 0, b_height = Fin 0\<rparr>"

definition scenario_selection :: "rat \<Rightarrow> bounds" where
  "scenario_selection x = \<lparr>b_x = Fin x, b_y = Fin 100, b_width = Fin 320, b_height = Fin 180\<rparr>"

section \<open>Properties of the numbers\<close>

subsection \<open>Rounding to binary64\<close>

lemma powi_two_mono: "a \<le> b \<Longrightarrow> (2::rat) powi a \<le> 2 powi b"
  by (rule power_int_increasing) simp_all

lemma powi_two_less_imp: "(2::rat) powi a < 2 powi b \<Longrightarrow> a < b"
  using powi_two_mono [of b a] by (cases "a < b") auto

lemma round_even_bounds: "of_int (round_even v) \<le> v + 1/2 \<and> v - 1/2 \<le> of_int (round_even v)"
proof -
  define f where "f = \<lfloor>v\<rfloor>"
  have b: "of_int f \<le> v" "v < of_int f + 1" unfolding f_def by linarith+
  have r: "round_even v = (if v - of_int f < 1/2 then f else if 1/2 < v - of_int f then f + 1
      else if even f then f else f + 1)"
    by (simp add: round_even_def Let_def f_def)
  show ?thesis unfolding r using b by (simp split: if_splits)
qed

lemma round_even_of_int [simp]: "round_even (of_int z) = z"
  by (simp add: round_even_def)

lemma round_even_mono_int: "v \<le> of_int n \<Longrightarrow> round_even v \<le> n"
proof -
  assume a: "v \<le> of_int n"
  have f: "\<lfloor>v\<rfloor> \<le> n" using a by (simp add: floor_le_iff) 
  show ?thesis
  proof (cases "\<lfloor>v\<rfloor> = n")
    case True
    then have "v = of_int n" using a by linarith
    then show ?thesis by simp
  next
    case False
    with f have "\<lfloor>v\<rfloor> + 1 \<le> n" by simp
    then show ?thesis by (auto simp: round_even_def Let_def)
  qed
qed

lemma round_even_mono_int': "of_int n \<le> v \<Longrightarrow> n \<le> round_even v"
proof -
  assume a: "of_int n \<le> v"
  then have "n \<le> \<lfloor>v\<rfloor>" by (simp add: le_floor_iff)
  then show ?thesis by (auto simp: round_even_def Let_def)
qed

lemma ilog2_unique_aux:
  assumes "(2::rat) powi e \<le> q" "q < 2 powi (e + 1)" "2 powi e' \<le> q" "q < 2 powi (e' + 1)"
  shows "e = e'"
proof -
  have "(2::rat) powi e < 2 powi (e' + 1)" using assms by linarith
  then have 1: "e < e' + 1" by (rule powi_two_less_imp)
  have "(2::rat) powi e' < 2 powi (e + 1)" using assms by linarith
  then have 2: "e' < e + 1" by (rule powi_two_less_imp)
  from 1 2 show ?thesis by simp
qed

lemma ilog2_bounds:
  assumes "0 < q"
  shows "2 powi (ilog2 q) \<le> q \<and> q < 2 powi (ilog2 q + 1)"
proof -
  obtain n d where qd: "quotient_of q = (n, d)" by (cases "quotient_of q")
  then have d: "0 < d" and q: "q = of_int n / of_int d"
    using quotient_of_denom_pos quotient_of_div by auto
  from assms q d have n: "0 < n"
    by (simp add: zero_less_divide_iff)
  define a where "a = floorlog 2 (nat n)"
  define b where "b = floorlog 2 (nat d)"
  have an: "2 ^ (a - 1) \<le> nat n \<and> nat n < 2 ^ a"
    unfolding a_def using floorlog_bounds [of "nat n" 2] n by simp
  have bd: "2 ^ (b - 1) \<le> nat d \<and> nat d < 2 ^ b"
    unfolding b_def using floorlog_bounds [of "nat d" 2] d by simp
  have a1: "1 \<le> a" unfolding a_def using n by (simp add: floorlog_def)
  have b1: "1 \<le> b" unfolding b_def using d by (simp add: floorlog_def)
  have nr: "(of_int n :: rat) < 2 ^ a"
  proof -
    have "int (nat n) < int (2 ^ a)" using an by (simp only: of_nat_less_iff)
    then have "n < 2 ^ a" using n by simp
    then have "(of_int n :: rat) < of_int (2 ^ a)" by (simp only: of_int_less_iff)
    then show ?thesis by simp
  qed
  have dr: "(2::rat) ^ (b - 1) \<le> of_int d"
  proof -
    have "int (2 ^ (b - 1)) \<le> int (nat d)" using bd by (simp only: of_nat_le_iff)
    then have "2 ^ (b - 1) \<le> d" using d by simp
    then have "(of_int (2 ^ (b - 1)) :: rat) \<le> of_int d" by (simp only: of_int_le_iff)
    then show ?thesis by simp
  qed
  have dn: "(of_int d :: rat) < 2 ^ b"
  proof -
    have "int (nat d) < int (2 ^ b)" using bd by (simp only: of_nat_less_iff)
    then have "d < 2 ^ b" using d by simp
    then have "(of_int d :: rat) < of_int (2 ^ b)" by (simp only: of_int_less_iff)
    then show ?thesis by simp
  qed
  have nl: "(2::rat) ^ (a - 1) \<le> of_int n"
  proof -
    have "int (2 ^ (a - 1)) \<le> int (nat n)" using an by (simp only: of_nat_le_iff)
    then have "2 ^ (a - 1) \<le> n" using n by simp
    then have "(of_int (2 ^ (a - 1)) :: rat) \<le> of_int n" by (simp only: of_int_le_iff)
    then show ?thesis by simp
  qed
  define k where "k = int a - int b"
  have up: "q < 2 powi (k + 1)"
  proof -
    have "of_int n < (2::rat) ^ a" by (rule nr)
    also have "(2::rat) ^ a = 2 powi (k + 1) * 2 ^ (b - 1)"
    proof -
      have "(2::rat) powi (k + 1) * 2 ^ (b - 1) = 2 powi (k + 1) * 2 powi (int (b - 1))"
        by (simp only: power_int_of_nat)
      also have "\<dots> = 2 powi (k + 1 + int (b - 1))"
        by (simp add: power_int_add)
      also have "k + 1 + int (b - 1) = int a" using b1 by (simp add: k_def)
      finally show ?thesis by (simp only: power_int_of_nat)
    qed
    also have "\<dots> \<le> 2 powi (k + 1) * of_int d"
      using dr by (simp add: mult_left_mono)
    finally have "of_int n < 2 powi (k + 1) * (of_int d :: rat)" .
    then show ?thesis using d by (simp add: q pos_divide_less_eq)
  qed
  have dn': "2 powi (k - 1) * (of_int d :: rat) < of_int n"
  proof -
    have "2 powi (k - 1) * (of_int d :: rat) < 2 powi (k - 1) * 2 ^ b"
      using dn by (simp add: mult_strict_left_mono)
    also have "\<dots> = 2 powi (k - 1) * 2 powi (int b)"
      by (simp only: power_int_of_nat)
    also have "\<dots> = 2 powi (k - 1 + int b)"
      by (simp add: power_int_add)
    also have "k - 1 + int b = int (a - 1)" using a1 by (simp add: k_def)
    also have "(2::rat) powi int (a - 1) = 2 ^ (a - 1)" by (simp only: power_int_of_nat)
    also note nl
    finally show ?thesis .
  qed
  have low: "2 powi (k - 1) < q"
    using dn' d by (simp add: q pos_less_divide_eq)
  have il: "ilog2 q = (if 2 powi k \<le> q then k else k - 1)"
    unfolding ilog2_def qd by (simp add: Let_def a_def b_def k_def)
  show ?thesis
  proof (cases "2 powi k \<le> q")
    case True
    with il up show ?thesis by simp
  next
    case False
    with il low show ?thesis by simp
  qed
qed

lemma ilog2_unique:
  assumes "0 < q" "2 powi e \<le> q" "q < 2 powi (e + 1)"
  shows "ilog2 q = e"
  using ilog2_bounds [OF assms(1)] assms(2,3) by (intro ilog2_unique_aux [of _ q]) auto

lemma fl_mantissa:
  assumes "q \<noteq> 0"
  defines "e \<equiv> max (ilog2 \<bar>q\<bar>) (- 1022) - 52"
  shows "\<bar>round_even (q / 2 powi e)\<bar> \<le> 2 ^ 53"
proof -
  have pos: "0 < \<bar>q\<bar>" using assms(1) by simp
  have "\<bar>q\<bar> < 2 powi (ilog2 \<bar>q\<bar> + 1)" using ilog2_bounds [OF pos] by simp
  also have "\<dots> \<le> 2 powi (e + 53)"
    by (rule powi_two_mono) (simp add: e_def)
  also have "\<dots> = 2 powi e * 2 ^ 53"
    by (simp add: power_int_add)
  finally have lt: "\<bar>q\<bar> < 2 powi e * 2 ^ 53" .
  have "\<bar>q / 2 powi e\<bar> = \<bar>q\<bar> / 2 powi e" by simp
  also have "\<dots> < 2 ^ 53"
    using lt by (simp add: pos_divide_less_eq mult.commute)
  finally have a: "\<bar>q / 2 powi e\<bar> < 2 ^ 53" .
  define v where "v = q / 2 powi e"
  have av: "\<bar>v\<bar> < 2 ^ 53" using a by (simp only: v_def)
  have "v \<le> 2 ^ 53" using av by linarith
  then have "v \<le> of_int (2 ^ 53)" by simp
  then have u: "round_even v \<le> 2 ^ 53" by (rule round_even_mono_int)
  have "- (2 ^ 53) \<le> v" using av by linarith
  then have "of_int (- (2 ^ 53)) \<le> v" by simp
  then have l: "- (2 ^ 53) \<le> round_even v" by (rule round_even_mono_int')
  from u l show ?thesis unfolding v_def by linarith
qed

lemma fl_not_NaN [simp]: "fl q \<noteq> NaN"
  by (simp add: fl_def Let_def)

lemma fl_zero [simp]: "fl 0 = Fin 0"
  by (simp add: fl_def)

lemma fl_nonneg:
  assumes "0 \<le> q"
  shows "fl q = PosInf \<or> (\<exists>r. fl q = Fin r \<and> 0 \<le> r)"
proof (cases "q = 0")
  case True
  then show ?thesis by simp
next
  case False
  define e where "e = max (ilog2 \<bar>q\<bar>) (- 1022) - 52"
  define r where "r = of_int (round_even (q / 2 powi e)) * (2::rat) powi e"
  have "of_int 0 \<le> q / 2 powi e" using assms by simp
  then have "0 \<le> round_even (q / 2 powi e)" by (rule round_even_mono_int')
  then have r: "0 \<le> r" unfolding r_def by simp
  have "fl q = (if 2 ^ 1024 \<le> r then PosInf else if r \<le> - (2 ^ 1024) then NegInf else Fin r)"
    using False by (simp add: fl_def Let_def e_def r_def)
  with r show ?thesis by (auto split: if_splits)
qed

lemma fl_bounded:
  assumes "q \<noteq> 0"
  defines "e \<equiv> max (ilog2 \<bar>q\<bar>) (- 1022) - 52"
  shows "\<bar>of_int (round_even (q / 2 powi e)) * 2 powi e\<bar> \<le> (2::rat) powi (e + 53)"
proof -
  have "\<bar>round_even (q / 2 powi e)\<bar> \<le> 2 ^ 53"
    unfolding e_def by (rule fl_mantissa [OF assms(1)])
  then have "(of_int \<bar>round_even (q / 2 powi e)\<bar> :: rat) \<le> of_int (2 ^ 53)"
    by (simp only: of_int_le_iff)
  then have m: "\<bar>of_int (round_even (q / 2 powi e)) :: rat\<bar> \<le> 2 ^ 53" by simp
  have "\<bar>of_int (round_even (q / 2 powi e)) * 2 powi e\<bar>
      = \<bar>of_int (round_even (q / 2 powi e)) :: rat\<bar> * 2 powi e"
    by (simp add: abs_mult)
  also have "\<dots> \<le> 2 ^ 53 * 2 powi e"
    using m by (rule mult_right_mono) simp
  also have "\<dots> = 2 powi (e + 53)" by (simp add: power_int_add)
  finally show ?thesis .
qed

lemma fl_finite:
  assumes "\<bar>q\<bar> < 2 ^ 1023"
  shows "\<exists>r. fl q = Fin r \<and> (0 \<le> q \<longrightarrow> 0 \<le> r)"
proof (cases "q = 0")
  case True
  then show ?thesis by simp
next
  case False
  define e where "e = max (ilog2 \<bar>q\<bar>) (- 1022) - 52"
  define r where "r = of_int (round_even (q / 2 powi e)) * (2::rat) powi e"
  have pos: "0 < \<bar>q\<bar>" using False by simp
  have "2 powi (ilog2 \<bar>q\<bar>) \<le> \<bar>q\<bar>" using ilog2_bounds [OF pos] by simp
  also have "\<bar>q\<bar> < 2 powi 1023" using assms by simp
  finally have "ilog2 \<bar>q\<bar> < 1023" by (rule powi_two_less_imp)
  then have e: "e + 53 \<le> 1023" by (simp add: e_def)
  have "\<bar>r\<bar> \<le> 2 powi (e + 53)"
    unfolding r_def e_def by (rule fl_bounded [OF False])
  also have "\<dots> \<le> 2 powi 1023" using e by (rule powi_two_mono)
  also have "\<dots> < 2 ^ 1024" by simp
  finally have b: "\<bar>r\<bar> < 2 ^ 1024" .
  have "fl q = (if 2 ^ 1024 \<le> r then PosInf else if r \<le> - (2 ^ 1024) then NegInf else Fin r)"
    using False by (simp add: fl_def Let_def e_def r_def)
  with b have f: "fl q = Fin r" by (auto split: if_splits)
  from fl_nonneg [of q] f show ?thesis by auto
qed

lemma fl_eval:
  assumes "q \<noteq> 0" "2 powi e \<le> \<bar>q\<bar>" "\<bar>q\<bar> < 2 powi (e + 1)" "- 1022 \<le> e" "e \<le> 1022"
  shows "fl q = Fin (of_int (round_even (q / 2 powi (e - 52))) * 2 powi (e - 52))"
proof -
  have pos: "0 < \<bar>q\<bar>" using assms(1) by simp
  have il: "ilog2 \<bar>q\<bar> = e" using pos assms(2,3) by (rule ilog2_unique)
  have mx: "max (ilog2 \<bar>q\<bar>) (- 1022) - 52 = e - 52" using il assms(4) by simp
  define r where "r = of_int (round_even (q / 2 powi (e - 52))) * (2::rat) powi (e - 52)"
  have "\<bar>r\<bar> \<le> 2 powi (e - 52 + 53)"
    using fl_bounded [OF assms(1)] unfolding mx r_def .
  also have "\<dots> \<le> 2 powi 1023" using assms(5) by (intro powi_two_mono) simp
  also have "\<dots> < 2 ^ 1024" by simp
  finally have b: "\<bar>r\<bar> < 2 ^ 1024" .
  have "fl q = (if 2 ^ 1024 \<le> r then PosInf else if r \<le> - (2 ^ 1024) then NegInf else Fin r)"
    using assms(1) by (simp add: fl_def Let_def mx r_def)
  with b show ?thesis unfolding r_def by (auto split: if_splits)
qed

lemma fl_of_int:
  assumes "\<bar>n\<bar> < 2 ^ 53"
  shows "fl (of_int n) = Fin (of_int n)"
proof (cases "n = 0")
  case True
  then show ?thesis by simp
next
  case False
  define q :: rat where "q = of_int n"
  have q0: "q \<noteq> 0" using False by (simp add: q_def)
  have pos: "0 < \<bar>q\<bar>" using q0 by simp
  define e where "e = ilog2 \<bar>q\<bar>"
  have b: "2 powi e \<le> \<bar>q\<bar>" "\<bar>q\<bar> < 2 powi (e + 1)"
    using ilog2_bounds [OF pos] by (simp_all add: e_def)
  have "1 \<le> \<bar>n\<bar>" using False by simp
  then have "(of_int 1 :: rat) \<le> of_int \<bar>n\<bar>" by (simp only: of_int_le_iff)
  then have "(2::rat) powi 0 \<le> \<bar>q\<bar>" by (simp add: q_def)
  also note b(2)
  finally have e0: "0 \<le> e" using powi_two_less_imp [of 0 "e + 1"] by simp
  have "(of_int \<bar>n\<bar> :: rat) < of_int (2 ^ 53)" using assms by (simp only: of_int_less_iff)
  then have "\<bar>q\<bar> < 2 powi 53" by (simp add: q_def)
  with b(1) have "(2::rat) powi e < 2 powi 53" by linarith
  then have e52: "e \<le> 52" using powi_two_less_imp [of e 53] by simp
  define k where "k = nat (52 - e)"
  have pk: "(2::rat) powi (e - 52) = 1 / 2 ^ k"
  proof -
    have ek: "e - 52 = - int k" using e52 by (simp add: k_def)
    show ?thesis unfolding ek by (simp add: power_int_minus divide_inverse)
  qed
  have "q / 2 powi (e - 52) = of_int (n * 2 ^ k)"
    by (simp add: pk q_def)
  then have m: "round_even (q / 2 powi (e - 52)) = n * 2 ^ k"
    by (simp only: round_even_of_int)
  have "fl q = Fin (of_int (round_even (q / 2 powi (e - 52))) * 2 powi (e - 52))"
    using q0 b by (rule fl_eval) (use e0 e52 in simp_all)
  also have "of_int (round_even (q / 2 powi (e - 52))) * 2 powi (e - 52) = q"
    unfolding m by (simp add: pk q_def)
  finally show ?thesis by (simp add: q_def)
qed

lemma fl_abs_error:
  assumes "\<bar>q\<bar> < 2 powi (k + 1)" "- 1022 \<le> k" "k \<le> 1022"
  shows "\<exists>r. fl q = Fin r \<and> \<bar>r - q\<bar> \<le> 2 powi (k - 53)"
proof (cases "q = 0")
  case True
  then show ?thesis by simp
next
  case False
  have pos: "0 < \<bar>q\<bar>" using False by simp
  define e0 where "e0 = max (ilog2 \<bar>q\<bar>) (- 1022)"
  define e where "e = e0 - 52"
  define v where "v = q / 2 powi e"
  define r where "r = of_int (round_even v) * (2::rat) powi e"
  have "2 powi (ilog2 \<bar>q\<bar>) \<le> \<bar>q\<bar>" using ilog2_bounds [OF pos] by simp
  also note assms(1)
  finally have "ilog2 \<bar>q\<bar> < k + 1" by (rule powi_two_less_imp)
  then have e0k: "e0 \<le> k" using assms(2) by (simp add: e0_def)
  have "\<bar>r\<bar> \<le> 2 powi (e + 53)"
    using fl_bounded [OF False] by (simp only: r_def v_def e_def e0_def)
  also have "\<dots> \<le> 2 powi 1023" using e0k assms(3) by (intro powi_two_mono) (simp add: e_def)
  also have "\<dots> < 2 ^ 1024" by simp
  finally have b: "\<bar>r\<bar> < 2 ^ 1024" .
  have "fl q = (if 2 ^ 1024 \<le> r then PosInf else if r \<le> - (2 ^ 1024) then NegInf else Fin r)"
    using False by (simp add: fl_def Let_def e_def e0_def r_def v_def)
  with b have f: "fl q = Fin r" by (auto split: if_splits)
  have qv: "q = v * 2 powi e" by (simp add: v_def)
  have "r - q = (of_int (round_even v) - v) * 2 powi e"
    by (simp add: r_def qv algebra_simps)
  then have "\<bar>r - q\<bar> = \<bar>of_int (round_even v) - v\<bar> * 2 powi e"
    by (simp add: abs_mult)
  also have "\<dots> \<le> (1/2) * 2 powi e"
  proof (rule mult_right_mono)
    show "\<bar>of_int (round_even v) - v\<bar> \<le> 1/2" using round_even_bounds [of v] by linarith
    show "(0::rat) \<le> 2 powi e" by simp
  qed
  also have "\<dots> = 2 powi (e - 1)" by (simp add: power_int_diff)
  also have "\<dots> \<le> 2 powi (k - 53)" using e0k by (intro powi_two_mono) (simp add: e_def)
  finally show ?thesis using f by blast
qed

subsection \<open>Evaluation on numerals\<close>

lemma fl_numeral: "(numeral k :: int) < 2 ^ 53 \<Longrightarrow> fl (numeral k) = Fin (numeral k)"
  using fl_of_int [of "numeral k"] by simp

lemma fl_one [simp]: "fl 1 = Fin 1"
  using fl_of_int [of 1] by simp

lemma round_even_frac:
  assumes "0 < b"
  shows "round_even (of_int a / of_int b) =
    (if 2 * (a mod b) < b then a div b else if b < 2 * (a mod b) then a div b + 1
     else if even (a div b) then a div b else a div b + 1)"
proof -
  have f: "\<lfloor>(of_int a / of_int b :: rat)\<rfloor> = a div b"
    by (simp add: floor_divide_of_int_eq)
  have "(of_int a :: rat) = of_int (b * (a div b) + a mod b)" by simp
  also have "\<dots> = of_int b * of_int (a div b) + of_int (a mod b)" by (simp only: of_int_add of_int_mult)
  finally have r: "(of_int a / of_int b :: rat) - of_int (a div b) = of_int (a mod b) / of_int b"
    using assms by (simp add: field_simps)
  have c1: "(of_int (a mod b) / of_int b < (1/2 :: rat)) = (2 * (a mod b) < b)"
  proof -
    have "(of_int (a mod b) / of_int b < (1/2 :: rat)) = ((of_int (2 * (a mod b)) :: rat) < of_int b)"
      using assms by (simp add: field_simps)
    then show ?thesis by (simp only: of_int_less_iff)
  qed
  have c2: "((1/2 :: rat) < of_int (a mod b) / of_int b) = (b < 2 * (a mod b))"
  proof -
    have "((1/2 :: rat) < of_int (a mod b) / of_int b) = ((of_int b :: rat) < of_int (2 * (a mod b)))"
      using assms by (simp add: field_simps)
    then show ?thesis by (simp only: of_int_less_iff)
  qed
  show ?thesis
    unfolding round_even_def Let_def f r c1 c2 ..
qed

lemma round_even_numeral:
  "round_even (numeral a / numeral b) =
    (if 2 * (numeral a mod numeral b) < (numeral b :: int) then numeral a div numeral b
     else if (numeral b :: int) < 2 * (numeral a mod numeral b) then numeral a div numeral b + 1
     else if even (numeral a div numeral b :: int) then numeral a div numeral b
     else numeral a div numeral b + 1)"
  using round_even_frac [of "numeral b" "numeral a"] by simp

text \<open>The double nearest to one tenth, \<open>0x3FB999999999999A\<close>.\<close>

lemma fl_tenth: "fl (1 / 10) = Fin (3602879701896397 / 2 ^ 55)"
  by (subst fl_eval [where e = "-4"]) (simp_all add: round_even_numeral power_int_minus)

lemma round_even_numeral_int [simp]: "round_even (numeral k) = numeral k"
  using round_even_of_int [of "numeral k"] by simp

lemma floor_numeral_div: "\<lfloor>(numeral a / numeral b :: rat)\<rfloor> = numeral a div numeral b"
  using floor_divide_of_int_eq [of "numeral a" "numeral b", where ?'a = rat] by simp

lemma length_blob_of_size [simp]: "length (blob_of_size n) = n"
  by (simp add: blob_of_size_def)

section \<open>Properties of the session\<close>

lemma truthy_opt_get:
  assumes "truthy_opt (opt_get (Some d) k)"
  shows "\<exists>t. get_prop d k = Inr (Some t) \<and> truthy t"
proof (cases d)
  case (JObj kvs)
  with assms show ?thesis by (cases "map_of kvs k") auto
qed (use assms in auto)

lemma get_prop_opt_get: "get_prop d k = Inr v \<Longrightarrow> opt_get (Some d) k = v"
  by (cases d) auto

lemma auth_cached:
  "publicKey cfg \<noteq> [] \<Longrightarrow> cachedToken st = Some (t, expiresAt) \<Longrightarrow> now < expiresAt
   \<Longrightarrow> getAuthToken cfg reply now st = (Inr t, st)"
  by (simp add: getAuthToken_def valid_cached_def)

lemma auth_one_request:
  "publicKey cfg \<noteq> [] \<Longrightarrow> valid_cached st now = None
   \<Longrightarrow> requests (snd (getAuthToken cfg reply now st)) = requests st @ [auth_request cfg]"
  by (auto simp: getAuthToken_def send_def Let_def auth_request_def split: option.splits sum.splits)

lemma auth_success:
  assumes "publicKey cfg \<noteq> []" "valid_cached st now = None" "\<not> reply_failed [''token''] reply"
  shows "\<exists>t. getAuthToken cfg reply now st =
           (Inr t, \<lparr>cachedToken = Some (t, now + 7200000), requests = requests st @ [auth_request cfg]\<rparr>)"
proof -
  from assms(3) obtain r d where r: "reply = Inr r" "resp_ok r" "resp_json r = Inr d"
    and tr: "truthy_opt (opt_get (Some d) ''token'')"
    by (auto simp: reply_failed_def split: sum.splits)
  from truthy_opt_get [OF tr] obtain t where t: "get_prop d ''token'' = Inr (Some t)" "truthy t"
    by blast
  have "getAuthToken cfg reply now st =
           (Inr t, \<lparr>cachedToken = Some (t, now + 7200000), requests = requests st @ [auth_request cfg]\<rparr>)"
    using assms(1,2) r t
    by (simp add: getAuthToken_def send_def Let_def auth_request_def TOKEN_VALIDITY_MS_def)
  then show ?thesis by blast
qed

lemma auth_twice:
  assumes "publicKey cfg \<noteq> []" "valid_cached st now1 = None" "\<not> reply_failed [''token''] reply1"
    and "now2 < now1 + 7200000"
  shows "fst (getAuthToken cfg reply2 now2 (snd (getAuthToken cfg reply1 now1 st)))
           = fst (getAuthToken cfg reply1 now1 st)
       \<and> requests (snd (getAuthToken cfg reply2 now2 (snd (getAuthToken cfg reply1 now1 st))))
           = requests st @ [auth_request cfg]"
proof -
  from auth_success [OF assms(1-3)] obtain t where
    g: "getAuthToken cfg reply1 now1 st =
           (Inr t, \<lparr>cachedToken = Some (t, now1 + 7200000), requests = requests st @ [auth_request cfg]\<rparr>)"
    by blast
  show ?thesis
    unfolding g using assms(1,4)
      auth_cached [of cfg "\<lparr>cachedToken = Some (t, now1 + 7200000), requests = requests st @ [auth_request cfg]\<rparr>" t "now1 + 7200000" now2 reply2]
    by simp
qed

lemma expired_valid_cached:
  "(\<forall>t e. cachedToken st = Some (t, e) \<longrightarrow> e \<le> now) \<Longrightarrow> valid_cached st now = None"
  by (auto simp: valid_cached_def split: option.splits)

text \<open>A call is its first part followed, when it waits, by its second part.\<close>

lemma getAuthToken_phases:
  "getAuthToken cfg reply now st =
     (case getAuthToken_begin cfg now st of
         (Settled result, st') \<Rightarrow> (result, st')
       | (Awaiting started, st') \<Rightarrow> getAuthToken_resume reply started st')"
  by (simp add: getAuthToken_def getAuthToken_begin_def getAuthToken_resume_def Let_def
      split: option.splits)

text \<open>
  C5 (amended). When a public API key is configured: \<open>getAuthToken\<close> returns the cached
  credential, with no network request and the state unchanged, whenever the current time is
  strictly before the cached expiry; otherwise it sends exactly one authentication request
  and, when the reply carries a token, caches it with expiry exactly 7,200,000 ms after the
  time read at the start of the call; a second call made after such a call has returned,
  and less than two hours after it started, returns the same token and sends nothing, so
  the two calls, one after the other, send one request.
\<close>

theorem getAuthToken_caching:
  assumes "publicKey cfg \<noteq> []"
  shows "(cachedToken st = Some (t, expiresAt) \<and> now < expiresAt
            \<longrightarrow> getAuthToken cfg reply now st = (Inr t, st))
       \<and> ((\<forall>t e. cachedToken st = Some (t, e) \<longrightarrow> e \<le> now)
            \<longrightarrow> requests (snd (getAuthToken cfg reply now st)) = requests st @ [auth_request cfg])
       \<and> ((\<forall>t e. cachedToken st = Some (t, e) \<longrightarrow> e \<le> now) \<and> \<not> reply_failed [''token''] reply
            \<longrightarrow> (\<exists>tok. getAuthToken cfg reply now st =
                  (Inr tok, \<lparr>cachedToken = Some (tok, now + 7200000),
                             requests = requests st @ [auth_request cfg]\<rparr>)))
       \<and> ((\<forall>t e. cachedToken st = Some (t, e) \<longrightarrow> e \<le> now) \<and> \<not> reply_failed [''token''] reply
            \<and> now2 < now + 7200000
            \<longrightarrow> fst (getAuthToken cfg reply2 now2 (snd (getAuthToken cfg reply now st)))
                  = fst (getAuthToken cfg reply now st)
                \<and> requests (snd (getAuthToken cfg reply2 now2 (snd (getAuthToken cfg reply now st))))
                  = requests st @ [auth_request cfg])"
proof (intro conjI impI)
  assume "cachedToken st = Some (t, expiresAt) \<and> now < expiresAt"
  then show "getAuthToken cfg reply now st = (Inr t, st)"
    using auth_cached [OF assms] by blast
next
  assume "\<forall>t e. cachedToken st = Some (t, e) \<longrightarrow> e \<le> now"
  then have "valid_cached st now = None" by (rule expired_valid_cached)
  then show "requests (snd (getAuthToken cfg reply now st)) = requests st @ [auth_request cfg]"
    by (rule auth_one_request [OF assms])
next
  assume a: "(\<forall>t e. cachedToken st = Some (t, e) \<longrightarrow> e \<le> now) \<and> \<not> reply_failed [''token''] reply"
  then have "valid_cached st now = None" by (intro expired_valid_cached) blast
  then show "\<exists>tok. getAuthToken cfg reply now st =
      (Inr tok, \<lparr>cachedToken = Some (tok, now + 7200000), requests = requests st @ [auth_request cfg]\<rparr>)"
    using a by (intro auth_success [OF assms]) blast+
next
  assume a: "(\<forall>t e. cachedToken st = Some (t, e) \<longrightarrow> e \<le> now) \<and> \<not> reply_failed [''token''] reply
      \<and> now2 < now + 7200000"
  then have v: "valid_cached st now = None" by (intro expired_valid_cached) blast
  from a have f: "\<not> reply_failed [''token''] reply" and n: "now2 < now + 7200000" by blast+
  from auth_twice [OF assms v f n, of reply2]
  show "fst (getAuthToken cfg reply2 now2 (snd (getAuthToken cfg reply now st)))
      = fst (getAuthToken cfg reply now st)" by blast
  from auth_twice [OF assms v f n, of reply2]
  show "requests (snd (getAuthToken cfg reply2 now2 (snd (getAuthToken cfg reply now st))))
      = requests st @ [auth_request cfg]" by blast
qed

theorem getAuthToken_caching_witness:
  "publicKey sample_config \<noteq> []
   \<and> getAuthToken sample_config token_reply 1000 empty_state
       = (Inr (JStr ''tok-1''), \<lparr>cachedToken = Some (JStr ''tok-1'', 7201000),
            requests = [auth_request sample_config]\<rparr>)
   \<and> getAuthToken sample_config token_reply 7200999
         \<lparr>cachedToken = Some (JStr ''tok-1'', 7201000), requests = [auth_request sample_config]\<rparr>
       = (Inr (JStr ''tok-1''), \<lparr>cachedToken = Some (JStr ''tok-1'', 7201000),
            requests = [auth_request sample_config]\<rparr>)
   \<and> requests (snd (getAuthToken sample_config token_reply 7200999
         (snd (getAuthToken sample_config token_reply 1000 empty_state))))
       = [auth_request sample_config]"
proof -
  have k: "publicKey sample_config \<noteq> []" by (simp add: sample_config_def)
  have f: "\<not> reply_failed [''token''] token_reply"
    by (simp add: reply_failed_def token_reply_def json_reply_def)
  have e: "\<forall>t e. cachedToken empty_state = Some (t, e) \<longrightarrow> e \<le> 1000"
    by (simp add: empty_state_def)
  note c = getAuthToken_caching [OF k, of _ _ _ 1000 token_reply 7200999 token_reply]
  have g: "getAuthToken sample_config token_reply 1000 empty_state
       = (Inr (JStr ''tok-1''), \<lparr>cachedToken = Some (JStr ''tok-1'', 7201000),
            requests = [auth_request sample_config]\<rparr>)"
    by (simp add: getAuthToken_def valid_cached_def empty_state_def sample_config_def token_reply_def
        json_reply_def send_def auth_request_def TOKEN_VALIDITY_MS_def)
  have h: "getAuthToken sample_config token_reply 7200999
         \<lparr>cachedToken = Some (JStr ''tok-1'', 7201000), requests = [auth_request sample_config]\<rparr>
       = (Inr (JStr ''tok-1''), \<lparr>cachedToken = Some (JStr ''tok-1'', 7201000),
            requests = [auth_request sample_config]\<rparr>)"
    using getAuthToken_caching [OF k, of
        "\<lparr>cachedToken = Some (JStr ''tok-1'', 7201000), requests = [auth_request sample_config]\<rparr>"
        "JStr ''tok-1''" 7201000 7200999 token_reply]
    by simp
  have r: "requests (snd (getAuthToken sample_config token_reply 7200999
         (snd (getAuthToken sample_config token_reply 1000 empty_state))))
       = [auth_request sample_config]"
    using getAuthToken_caching [OF k, of empty_state _ _ 1000 token_reply 7200999 token_reply] e f
    by (simp add: empty_state_def)
  from k g h r show ?thesis by blast
qed

text \<open>
  Without a key no request is sent and a cached token is not returned. And two calls that
  overlap, both within the two hours, send two requests: the second call starts while the
  first waits for its reply, when nothing is cached yet.
\<close>

theorem getAuthToken_caching_counterexample:
  "requests (snd (getAuthToken unconfigured token_reply 1000 empty_state)) = []
   \<and> fst (getAuthToken unconfigured token_reply 1000 empty_state) = Inl (JsError config_error_message)
   \<and> fst (getAuthToken unconfigured token_reply 1000
        \<lparr>cachedToken = Some (JStr ''tok-1'', 7201000), requests = []\<rparr>) \<noteq> Inr (JStr ''tok-1'')
   \<and> publicKey sample_config \<noteq> []
   \<and> getAuthToken_overlapped sample_config token_reply 1000 token_reply 1001 empty_state
       = ((Inr (JStr ''tok-1''), Inr (JStr ''tok-1'')),
          \<lparr>cachedToken = Some (JStr ''tok-1'', 7201001),
            requests = [auth_request sample_config, auth_request sample_config]\<rparr>)"
  by (simp add: getAuthToken_def unconfigured_def sample_config_def empty_state_def
      getAuthToken_overlapped_def getAuthToken_begin_def getAuthToken_resume_def valid_cached_def
      send_def token_reply_def json_reply_def auth_request_def TOKEN_VALIDITY_MS_def)

text \<open>
  C9. If no public API key is configured, \<open>getAuthToken\<close> fails with the configuration
  error whatever the cache holds, also a token that is still valid: the check of the
  configuration comes first, nothing is sent and the state is left as it was.
\<close>

theorem getAuthToken_unconfigured:
  "publicKey cfg = [] \<Longrightarrow> getAuthToken cfg reply now st = (Inl (JsError config_error_message), st)"
  by (simp add: getAuthToken_def)

theorem getAuthToken_unconfigured_witness:
  "publicKey unconfigured = []
   \<and> valid_cached \<lparr>cachedToken = Some (JStr ''tok-1'', 7201000), requests = []\<rparr> 1000
       = Some (JStr ''tok-1'')
   \<and> getAuthToken unconfigured token_reply 1000
        \<lparr>cachedToken = Some (JStr ''tok-1'', 7201000), requests = []\<rparr>
      = (Inl (JsError config_error_message),
         \<lparr>cachedToken = Some (JStr ''tok-1'', 7201000), requests = []\<rparr>)"
proof -
  have k: "publicKey unconfigured = []" by (simp add: unconfigured_def)
  show ?thesis
    using k getAuthToken_unconfigured [OF k, of token_reply 1000
        "\<lparr>cachedToken = Some (JStr ''tok-1'', 7201000), requests = []\<rparr>"]
    by (simp add: valid_cached_def)
qed

text \<open>
  C10. On any failure of the authentication request (a network error, a non-ok HTTP
  status, an unreadable body or a response without a token), and more generally whenever
  \<open>getAuthToken\<close> throws, the cached credential is left unchanged: the cache is written only
  once a token has been received, and then with that token and the expiry two hours after
  the time read at the start of the call.
\<close>

theorem getAuthToken_failure_keeps_cache:
  "(reply_failed [''token''] reply
      \<longrightarrow> cachedToken (snd (getAuthToken cfg reply now st)) = cachedToken st)
   \<and> ((\<exists>e. fst (getAuthToken cfg reply now st) = Inl e)
      \<longrightarrow> cachedToken (snd (getAuthToken cfg reply now st)) = cachedToken st)
   \<and> (cachedToken (snd (getAuthToken cfg reply now st)) \<noteq> cachedToken st
      \<longrightarrow> (\<exists>t. fst (getAuthToken cfg reply now st) = Inr t
            \<and> cachedToken (snd (getAuthToken cfg reply now st)) = Some (t, now + 7200000)))"
proof (intro conjI impI)
  assume "reply_failed [''token''] reply"
  then show "cachedToken (snd (getAuthToken cfg reply now st)) = cachedToken st"
    by (auto simp: getAuthToken_def reply_failed_def send_def Let_def dest: get_prop_opt_get
        split: option.splits sum.splits)
next
  assume "\<exists>e. fst (getAuthToken cfg reply now st) = Inl e"
  then show "cachedToken (snd (getAuthToken cfg reply now st)) = cachedToken st"
    by (auto simp: getAuthToken_def send_def Let_def split: option.splits sum.splits if_splits)
next
  assume "cachedToken (snd (getAuthToken cfg reply now st)) \<noteq> cachedToken st"
  then show "\<exists>t. fst (getAuthToken cfg reply now st) = Inr t
      \<and> cachedToken (snd (getAuthToken cfg reply now st)) = Some (t, now + 7200000)"
    by (auto simp: getAuthToken_def send_def Let_def TOKEN_VALIDITY_MS_def
        split: option.splits sum.splits if_splits)
qed

theorem getAuthToken_failure_keeps_cache_witness:
  "reply_failed [''token''] (Inl (JsError ''Failed to fetch''))
   \<and> fst (getAuthToken sample_config (Inl (JsError ''Failed to fetch'')) 8000000
        \<lparr>cachedToken = Some (JStr ''tok-1'', 7201000), requests = []\<rparr>)
       = Inl (JsError ''Failed to fetch'')
   \<and> cachedToken (snd (getAuthToken sample_config (Inl (JsError ''Failed to fetch'')) 8000000
        \<lparr>cachedToken = Some (JStr ''tok-1'', 7201000), requests = []\<rparr>))
       = Some (JStr ''tok-1'', 7201000)"
proof -
  have f: "reply_failed [''token''] (Inl (JsError ''Failed to fetch''))"
    by (simp add: reply_failed_def)
  have g: "fst (getAuthToken sample_config (Inl (JsError ''Failed to fetch'')) 8000000
        \<lparr>cachedToken = Some (JStr ''tok-1'', 7201000), requests = []\<rparr>)
       = Inl (JsError ''Failed to fetch'')"
    by (simp add: getAuthToken_def valid_cached_def sample_config_def send_def)
  show ?thesis
    using f g getAuthToken_failure_keeps_cache [of "Inl (JsError ''Failed to fetch'')" sample_config
        8000000 "\<lparr>cachedToken = Some (JStr ''tok-1'', 7201000), requests = []\<rparr>"]
    by simp
qed

section \<open>Properties of the compression workflow\<close>

lemma start_failed:
  "reply_failed [''server'', ''task''] reply \<Longrightarrow> \<exists>e. compress_start P reply = Inl e"
  by (auto simp: compress_start_def reply_failed_def split: sum.splits json.splits option.splits)

lemma upload_failed:
  "reply_failed [''server_filename''] reply \<Longrightarrow> \<exists>e. compress_upload reply = Inl e"
  by (auto simp: compress_upload_def reply_failed_def dest: get_prop_opt_get
      split: sum.splits option.splits)

lemma process_failed:
  "reply_failed [''status''] reply \<Longrightarrow> \<exists>e. compress_process P reply = Inl e"
  by (auto simp: compress_process_def reply_failed_def dest: get_prop_opt_get
      split: sum.splits option.splits)

lemma download_failed_Inl: "download_failed reply \<Longrightarrow> \<exists>e. compress_download reply = Inl e"
  by (auto simp: compress_download_def download_failed_def split: sum.splits)

lemma auth_failed:
  "publicKey cfg = [] \<or> (valid_cached st now = None \<and> reply_failed [''token''] reply)
   \<Longrightarrow> \<exists>e. fst (getAuthToken cfg reply now st) = Inl e"
  by (auto simp: getAuthToken_def reply_failed_def Let_def dest: get_prop_opt_get
      split: sum.splits option.splits)

lemma try_Inr_steps:
  assumes "fst (compressImage_try P cfg net now imageBlob st) = Inr res"
  shows "(\<exists>t. fst (getAuthToken cfg (auth_reply net) now st) = Inr t)
       \<and> (\<exists>a. compress_start P (start_reply net) = Inr a)
       \<and> (\<exists>f. compress_upload (upload_reply net) = Inr f)
       \<and> compress_process P (process_reply net) = Inr ()
       \<and> (\<exists>b. compress_download (download_reply net) = Inr b)"
  using assms
  by (auto simp: compressImage_try_def Let_def split: prod.splits sum.splits)

lemma compressImage_cases:
  "(\<exists>res. fst (compressImage_try P cfg net now imageBlob st) = Inr res
      \<and> fst (compressImage P cfg net now imageBlob st) = res \<and> out_compressed res)
   \<or> (\<exists>m. fst (compressImage P cfg net now imageBlob st) =
        \<lparr>out_blob = imageBlob, out_compressed = False, out_error = Some m, out_details = Fallback\<rparr>)"
proof (cases "compressImage_try P cfg net now imageBlob st")
  case (Pair a st')
  show ?thesis
  proof (cases a)
    case (Inl e)
    with Pair show ?thesis by (simp add: compressImage_def Let_def)
  next
    case (Inr res)
    with Pair have "out_compressed res"
      by (auto simp: compressImage_try_def Let_def split: prod.splits sum.splits)
    with Pair Inr show ?thesis by (simp add: compressImage_def)
  qed
qed

lemma auth_requests_no_download:
  "filter is_download (requests (snd (getAuthToken cfg reply now st))) = filter is_download (requests st)"
  by (auto simp: getAuthToken_def send_def Let_def split: option.splits sum.splits)

text \<open>
  C1. \<open>compressImage\<close> never throws (it is a total function onto outcomes: every \<open>throw\<close> of
  the five steps is caught). Whenever the outcome is not compressed it is the fallback:
  \<open>compressed = false\<close>, an error message, and the input image's bytes. And a failure at any
  point (no key configured; a network error, a non-success status, a malformed body or a
  missing required field at authenticate, start, upload or process; a network error, a
  non-success status or an unreadable body at download) gives an outcome that is not
  compressed.
\<close>

theorem compressImage_fallback:
  "(out_compressed (fst (compressImage P cfg net now imageBlob st)) = False \<longrightarrow>
      (\<exists>m. fst (compressImage P cfg net now imageBlob st) =
        \<lparr>out_blob = imageBlob, out_compressed = False, out_error = Some m, out_details = Fallback\<rparr>))
   \<and> (publicKey cfg = []
       \<or> (valid_cached st now = None \<and> reply_failed [''token''] (auth_reply net))
       \<or> reply_failed [''server'', ''task''] (start_reply net)
       \<or> reply_failed [''server_filename''] (upload_reply net)
       \<or> reply_failed [''status''] (process_reply net)
       \<or> download_failed (download_reply net)
      \<longrightarrow> out_compressed (fst (compressImage P cfg net now imageBlob st)) = False)"
proof (intro conjI impI)
  assume "out_compressed (fst (compressImage P cfg net now imageBlob st)) = False"
  with compressImage_cases [of P cfg net now imageBlob st]
  show "\<exists>m. fst (compressImage P cfg net now imageBlob st) =
        \<lparr>out_blob = imageBlob, out_compressed = False, out_error = Some m, out_details = Fallback\<rparr>"
    by auto
next
  assume f: "publicKey cfg = []
       \<or> (valid_cached st now = None \<and> reply_failed [''token''] (auth_reply net))
       \<or> reply_failed [''server'', ''task''] (start_reply net)
       \<or> reply_failed [''server_filename''] (upload_reply net)
       \<or> reply_failed [''status''] (process_reply net)
       \<or> download_failed (download_reply net)"
  have "\<not> (\<exists>res. fst (compressImage_try P cfg net now imageBlob st) = Inr res)"
  proof
    assume "\<exists>res. fst (compressImage_try P cfg net now imageBlob st) = Inr res"
    then obtain res where "fst (compressImage_try P cfg net now imageBlob st) = Inr res" ..
    note s = try_Inr_steps [OF this]
    from f show False
      using s auth_failed [of cfg st now "auth_reply net"] start_failed [of "start_reply net" P]
        upload_failed [of "upload_reply net"] process_failed [of "process_reply net" P]
        download_failed_Inl [of "download_reply net"]
      by auto
  qed
  with compressImage_cases [of P cfg net now imageBlob st]
  show "out_compressed (fst (compressImage P cfg net now imageBlob st)) = False"
    by auto
qed

theorem compressImage_fallback_witness:
  "reply_failed [''server_filename''] (Inl (JsError ''Failed to fetch''))
   \<and> fst (compressImage sample_platform sample_config
        ((sample_network [])\<lparr>upload_reply := Inl (JsError ''Failed to fetch'')\<rparr>) 1000 [1, 2, 3]
        empty_state)
     = \<lparr>out_blob = [1, 2, 3], out_compressed = False, out_error = Some ''Failed to fetch'',
         out_details = Fallback\<rparr>"
proof -
  let ?net = "(sample_network [])\<lparr>upload_reply := Inl (JsError ''Failed to fetch'')\<rparr>"
  let ?out = "fst (compressImage sample_platform sample_config ?net 1000 [1, 2, 3] empty_state)"
  have f: "reply_failed [''server_filename''] (upload_reply ?net)"
    by (simp add: reply_failed_def)
  from compressImage_fallback [of sample_platform sample_config ?net 1000 "[1, 2, 3]" empty_state] f
  obtain m where o: "?out =
      \<lparr>out_blob = [1, 2, 3], out_compressed = False, out_error = Some m, out_details = Fallback\<rparr>"
    by auto
  have "out_error ?out = Some ''Failed to fetch''"
    by (simp add: compressImage_def compressImage_try_def getAuthToken_def valid_cached_def
        empty_state_def sample_config_def sample_network_def token_reply_def json_reply_def
        send_def compress_start_def compress_upload_def Let_def)
  with o have "m = ''Failed to fetch''" by simp
  with o f show ?thesis by simp
qed

lemma process_not_success:
  assumes "status_field r \<noteq> Some (JStr ''TaskSuccess'')"
  shows "\<exists>e. compress_process P (Inr r) = Inl e"
  using assms
  by (auto simp: compress_process_def status_field_def dest: get_prop_opt_get
      split: sum.splits)

lemma get_prop_not_null: "d \<noteq> JNull \<Longrightarrow> get_prop d k = Inr (opt_get (Some d) k)"
  by (cases d) auto

lemma sample_steps:
  "compressImage_try sample_platform sample_config
       ((sample_network [])\<lparr>process_reply := reply\<rparr>) 1000 [1, 2, 3] empty_state
   = (case compress_process sample_platform reply of
        Inl e \<Rightarrow> (Inl e, \<lparr>cachedToken = Some (JStr ''tok-1'', 7201000),
            requests = [auth_request sample_config,
              StartTask ''https://api.iloveimg.com/v1/start/compressimage'' (JStr ''tok-1''),
              Upload (JStr ''api1.iloveimg.com'') (JStr ''task-1'') [1, 2, 3] (JStr ''tok-1''),
              Process (JStr ''api1.iloveimg.com'') (JStr ''task-1'') ''compressimage''
                (JStr ''file-1.jpg'') (JStr ''tok-1'')]\<rparr>)
      | Inr u \<Rightarrow> compressImage_try sample_platform sample_config
       ((sample_network [])\<lparr>process_reply := reply\<rparr>) 1000 [1, 2, 3] empty_state)"
  by (simp add: compressImage_try_def getAuthToken_def valid_cached_def
        empty_state_def sample_config_def sample_network_def token_reply_def json_reply_def
        send_def compress_start_def compress_upload_def Let_def auth_request_def
        TOKEN_VALIDITY_MS_def split: sum.splits)




section \<open>Properties of the capture handler\<close>

text \<open>
  C2. The result of a capture carries the final image (as a data URL) and the file name,
  but not the compression provenance: whenever \<open>handleScreenshotCapture\<close> returns, the
  returned object has exactly the keys \<open>success\<close>, \<open>filename\<close> and \<open>imageDataUrl\<close>, and the
  \<open>compression\<close> property that the content script reads from the response and hands to its
  download panel is undefined, whether the compression succeeded or not.
\<close>

theorem capture_result_without_compression:
  assumes "fst (handleScreenshotCapture P B cfg ic net now_auth now_name msg st) = Inr obj"
  shows "map fst obj = [''success'', ''filename'', ''imageDataUrl'']
       \<and> map_of obj ''compression'' = None"
  using assms
  by (auto simp: handleScreenshotCapture_def Let_def split: sum.splits if_splits prod.splits)

lemma sample_capture:
  "fst (handleScreenshotCapture sample_platform sample_browser sample_config sample_imageConfig
      (sample_network []) 1000 2000 (sample_message templateId) empty_state)
   = Inr [(''success'', VBool True),
          (''filename'', VStr (capture_filename sample_imageConfig templateId 2000)),
          (''imageDataUrl'', VStr ''data:image/jpeg;base64,'')]"
  by (simp add: handleScreenshotCapture_def sample_browser_def processImage_def Let_def
      compressImage_def compressImage_try_def getAuthToken_def valid_cached_def
      empty_state_def sample_config_def sample_network_def token_reply_def json_reply_def
      blob_reply_def send_def compress_start_def compress_upload_def compress_process_def
      compress_download_def sample_platform_def sample_imageConfig_def sample_message_def
      format_text_def chunk_loop.simps)

theorem capture_result_without_compression_witness:
  "fst (handleScreenshotCapture sample_platform sample_browser sample_config sample_imageConfig
      (sample_network []) 1000 2000 (sample_message (Some ''tpl-42'')) empty_state)
   = Inr [(''success'', VBool True), (''filename'', VStr ''tpl-42.jpg''),
          (''imageDataUrl'', VStr ''data:image/jpeg;base64,'')]
   \<and> map_of [(''success'', VBool True), (''filename'', VStr ''tpl-42.jpg''),
          (''imageDataUrl'', VStr ''data:image/jpeg;base64,'')] ''compression'' = None"
proof -
  have e: "fst (handleScreenshotCapture sample_platform sample_browser sample_config
      sample_imageConfig (sample_network []) 1000 2000 (sample_message (Some ''tpl-42''))
      empty_state)
   = Inr [(''success'', VBool True), (''filename'', VStr ''tpl-42.jpg''),
          (''imageDataUrl'', VStr ''data:image/jpeg;base64,'')]"
    unfolding sample_capture
    by (simp add: capture_filename_def extension_def sample_imageConfig_def)
  from capture_result_without_compression [OF e] e show ?thesis by simp
qed

text \<open>
  C8 (amended). For every capture that returns, the file name in the result is the
  template identifier followed by \<open>"."\<close> and the extension when the identifier is a
  non-empty string (the handler does not trim it), and \<open>"thumbnail-"\<close>, the epoch
  milliseconds, \<open>"."\<close> and the extension when the identifier is null or empty; the
  extension is \<open>jpg\<close> for \<open>image/jpeg\<close> and \<open>png\<close> for \<open>image/png\<close>. On the identifiers the popup
  sends (trimmed ones) this is the file name the specification describes.
\<close>

theorem capture_filename_rule:
  assumes "fst (handleScreenshotCapture P B cfg ic net now_auth now_name msg st) = Inr obj"
  shows "map_of obj ''filename'' = Some (VStr
     (let e = (case cfg_format ic of ImageJpeg \<Rightarrow> ''jpg'' | ImagePng \<Rightarrow> ''png'')
      in case msg_templateId msg of
           None \<Rightarrow> ''thumbnail-'' @ show_int now_name @ ''.'' @ e
         | Some s \<Rightarrow> if s \<noteq> [] then s @ ''.'' @ e
                     else ''thumbnail-'' @ show_int now_name @ ''.'' @ e))
     \<and> ((\<forall>s. msg_templateId msg = Some s \<longrightarrow> trim s = s)
         \<longrightarrow> map_of obj ''filename'' = Some (VStr (spec_filename ic (msg_templateId msg) now_name)))"
  using assms
  by (auto simp: handleScreenshotCapture_def Let_def capture_filename_def extension_def
      spec_filename_def
      split: sum.splits if_splits prod.splits image_format.splits option.splits)


theorem capture_filename_rule_witness:
  "fst (handleScreenshotCapture sample_platform sample_browser sample_config sample_imageConfig
      (sample_network []) 1000 2000 (sample_message None) empty_state)
   = Inr [(''success'', VBool True), (''filename'', VStr ''thumbnail-2000.jpg''),
          (''imageDataUrl'', VStr ''data:image/jpeg;base64,'')]
   \<and> spec_filename sample_imageConfig None 2000 = ''thumbnail-2000.jpg''"
proof -
  let ?obj = "[(''success'', VBool True),
      (''filename'', VStr (capture_filename sample_imageConfig None 2000)),
      (''imageDataUrl'', VStr ''data:image/jpeg;base64,'')]"
  have t: "\<forall>s. msg_templateId (sample_message None) = Some s \<longrightarrow> trim s = s"
    by (simp add: sample_message_def)
  from capture_filename_rule [OF sample_capture [of None]] t
  have "map_of ?obj ''filename''
      = Some (VStr (spec_filename sample_imageConfig (msg_templateId (sample_message None)) 2000))"
    by blast
  then have 1: "capture_filename sample_imageConfig None 2000
      = spec_filename sample_imageConfig None 2000"
    by (simp add: sample_message_def)
  have 2: "capture_filename sample_imageConfig None 2000 = ''thumbnail-2000.jpg''"
    by (simp add: capture_filename_def extension_def sample_imageConfig_def show_int_def
        show_nat.simps digit_char_def)
  from 1 2 sample_capture [of None] show ?thesis by simp
qed

theorem capture_filename_rule_counterexample:
  "fst (handleScreenshotCapture sample_platform sample_browser sample_config sample_imageConfig
      (sample_network []) 1000 2000 (sample_message (Some '' '')) empty_state)
   = Inr [(''success'', VBool True), (''filename'', VStr '' .jpg''),
          (''imageDataUrl'', VStr ''data:image/jpeg;base64,'')]
   \<and> trim '' '' = []
   \<and> spec_filename sample_imageConfig (Some '' '') 2000 = ''thumbnail-2000.jpg''"
  unfolding sample_capture
  by (simp add: capture_filename_def spec_filename_def extension_def
      sample_imageConfig_def trim_def js_space_def show_int_def show_nat.simps digit_char_def)

section \<open>Properties of the coordinate mapping\<close>

lemma clamp_lemma:
  assumes "v \<noteq> NaN" "0 \<le> n"
  shows "\<exists>i. Math_max (Fin 0) (Math_min (Math_round v) (Fin (of_int n))) = Fin (of_int i)
           \<and> 0 \<le> i \<and> i \<le> n"
proof (cases v)
  case NaN
  with assms show ?thesis by simp
next
  case PosInf
  with assms show ?thesis by (intro exI [of _ n]) simp
next
  case NegInf
  then show ?thesis using assms by (intro exI [of _ 0]) simp
next
  case (Fin a)
  define k where "k = \<lfloor>a + 1/2\<rfloor>"
  have "Math_max (Fin 0) (Math_min (Math_round v) (Fin (of_int n)))
      = Fin (of_int (max 0 (min k n)))"
    by (simp add: Fin k_def)
  then show ?thesis using assms(2) by (intro exI [of _ "max 0 (min k n)"]) simp
qed

lemma min_lemma:
  assumes "v = PosInf \<or> (\<exists>r. v = Fin r \<and> 0 \<le> r)" "0 \<le> m"
  shows "\<exists>j. Math_min (Math_round v) (Fin (of_int m)) = Fin (of_int j) \<and> 0 \<le> j \<and> j \<le> m"
proof -
  from assms(1) consider "v = PosInf" | r where "v = Fin r" "0 \<le> r" by blast
  then show ?thesis
  proof cases
    case 1
    with assms(2) show ?thesis by (intro exI [of _ m]) simp
  next
    case 2
    define k where "k = \<lfloor>r + 1/2\<rfloor>"
    have k0: "0 \<le> k" unfolding k_def using 2(2) by (simp add: le_floor_iff)
    have "Math_min (Math_round v) (Fin (of_int m)) = Fin (of_int (min k m))"
      by (simp add: 2 k_def)
    then show ?thesis using assms(2) k0 by (intro exI [of _ "min k m"]) simp
  qed
qed

lemma axis_within:
  fixes x w :: rat and lw pw :: nat
  assumes "0 \<le> w" "0 < lw" "0 < pw" "pw < 2 ^ 32"
  defines "scale \<equiv> num_div (num pw) (num lw)"
  defines "fx \<equiv> Math_max (Fin 0) (Math_min (Math_round (num_mul (Fin x) scale))
      (num_sub (num pw) (Fin 1)))"
  shows "axis_inside fx (Math_min (Math_round (num_mul (Fin w) scale)) (num_sub (num pw) fx)) pw"
proof -
  have q: "\<bar>(of_nat pw / of_nat lw :: rat)\<bar> < 2 ^ 1023"
  proof -
    have "(of_nat pw / of_nat lw :: rat) \<le> of_nat pw"
      using assms(2) by (simp add: divide_le_eq mult_le_cancel_left1)
    also have "(of_nat pw :: rat) < of_nat (2 ^ 32)" using assms(4) by (simp only: of_nat_less_iff)
    also have "(of_nat (2 ^ 32) :: rat) < 2 ^ 1023" by simp
    finally show ?thesis by simp
  qed
  have "scale = fl (of_nat pw / of_nat lw)"
    using assms(2) by (simp add: scale_def num_def)
  with fl_finite [OF q] obtain s where s: "scale = Fin s" "0 \<le> s" by auto
  have p53: "\<bar>int pw - 1\<bar> < 2 ^ 53" using assms(3,4) by simp
  have hi: "num_sub (num pw) (Fin 1) = Fin (of_int (int pw - 1))"
    using fl_of_int [OF p53] by (simp add: num_def)
  have "num_mul (Fin x) scale \<noteq> NaN" by (simp add: s)
  from clamp_lemma [OF this, of "int pw - 1"] assms(3)
  obtain i where i: "fx = Fin (of_int i)" "0 \<le> i" "i \<le> int pw - 1"
    unfolding fx_def hi by auto
  have i53: "\<bar>int pw - i\<bar> < 2 ^ 53" using i(2,3) assms(4) by simp
  have rest: "num_sub (num pw) fx = Fin (of_int (int pw - i))"
    using fl_of_int [OF i53] by (simp add: num_def i(1))
  have "0 \<le> w * s" using assms(1) s(2) by simp
  from fl_nonneg [OF this]
  have "num_mul (Fin w) scale = PosInf \<or> (\<exists>r. num_mul (Fin w) scale = Fin r \<and> 0 \<le> r)"
    by (simp add: s)
  from min_lemma [OF this, of "int pw - i"] i(3)
  obtain j where j: "Math_min (Math_round (num_mul (Fin w) scale)) (num_sub (num pw) fx)
      = Fin (of_int j)" "0 \<le> j" "j \<le> int pw - i"
    unfolding rest by auto
  have "i < int pw" using i(3) by simp
  then have "(of_int i :: rat) < of_int (int pw)" by (simp only: of_int_less_iff)
  moreover have "i + j \<le> int pw" using j(3) by simp
  then have "(of_int (i + j) :: rat) \<le> of_int (int pw)" by (simp only: of_int_le_iff)
  then have "(of_int i :: rat) + of_int j \<le> of_int (int pw)" by simp
  ultimately show ?thesis unfolding j(1) unfolding i(1) using i(2) j(2) by simp
qed

lemma axis_in_viewportE:
  assumes "axis_in_viewport a b n"
  obtains x w where "a = Fin x" "b = Fin w" "0 \<le> w"
  using assms by (cases a; cases b) auto

lemma unat_32_bound: "unat (w :: 32 word) < 2 ^ 32"
  using unsigned_less [of w, where ?'a = nat] by simp

lemmas mapping_eval = map_selection_def processImage_region_def Let_def num_def fl_numeral
  floor_numeral_div

lemma clamp_spec:
  assumes "v \<noteq> NaN" "0 \<le> n"
  shows "\<exists>i. Math_max (Fin 0) (Math_min (Math_round v) (Fin (of_int n))) = Fin (of_int i)
           \<and> clamp_into 0 (of_int n) (nearest_integer v) = Some (of_int i)
           \<and> 0 \<le> i \<and> i \<le> n"
proof (cases v)
  case NaN
  with assms show ?thesis by simp
next
  case PosInf
  with assms show ?thesis
    by (intro exI [of _ n]) (simp add: clamp_into_def nearest_integer_def)
next
  case NegInf
  then show ?thesis using assms
    by (intro exI [of _ 0]) (simp add: clamp_into_def nearest_integer_def)
next
  case (Fin a)
  define k where "k = \<lfloor>a + 1/2\<rfloor>"
  have r: "round a = k" by (simp add: round_def k_def)
  have c: "Math_max (Fin 0) (Math_min (Math_round v) (Fin (of_int n)))
      = Fin (of_int (max 0 (min k n)))"
    by (simp add: Fin k_def)
  have s: "clamp_into 0 (of_int n) (nearest_integer v) = Some (of_int (max 0 (min k n)))"
    using assms(2) by (simp add: Fin clamp_into_def nearest_integer_def r)
  show ?thesis using assms(2) c s by (intro exI [of _ "max 0 (min k n)"]) simp
qed

lemma smaller_spec: "Math_min (Math_round v) (Fin m) = smaller_of (nearest_integer v) (Fin m)"
  by (cases v) (auto simp: smaller_of_def nearest_integer_def round_def)

lemma axis_spec:
  fixes x :: rat and lw pw :: nat
  assumes "0 < lw" "0 < pw" "pw < 2 ^ 32"
  defines "scale \<equiv> num_div (num pw) (num lw)"
  defines "fx \<equiv> Math_max (Fin 0) (Math_min (Math_round (num_mul (Fin x) scale))
      (num_sub (num pw) (Fin 1)))"
  shows "\<exists>c. clamp_into 0 (of_nat pw - 1) (nearest_integer (num_mul (Fin x) scale)) = Some c
           \<and> fx = Fin c \<and> 0 \<le> c \<and> c \<le> of_nat pw - 1
           \<and> Math_min (Math_round w) (num_sub (num pw) fx)
               = smaller_of (nearest_integer w) (Fin (of_nat pw - c))"
proof -
  have q: "\<bar>(of_nat pw / of_nat lw :: rat)\<bar> < 2 ^ 1023"
  proof -
    have "(of_nat pw / of_nat lw :: rat) \<le> of_nat pw"
      using assms(1) by (simp add: divide_le_eq mult_le_cancel_left1)
    also have "(of_nat pw :: rat) < of_nat (2 ^ 32)" using assms(3) by (simp only: of_nat_less_iff)
    also have "(of_nat (2 ^ 32) :: rat) < 2 ^ 1023" by simp
    finally show ?thesis by simp
  qed
  have "scale = fl (of_nat pw / of_nat lw)"
    using assms(1) by (simp add: scale_def num_def)
  with fl_finite [OF q] obtain s where s: "scale = Fin s" "0 \<le> s" by auto
  have p53: "\<bar>int pw - 1\<bar> < 2 ^ 53" using assms(2,3) by simp
  have hi: "num_sub (num pw) (Fin 1) = Fin (of_int (int pw - 1))"
    using fl_of_int [OF p53] by (simp add: num_def)
  have hi': "(of_nat pw - 1 :: rat) = of_int (int pw - 1)" by simp
  have "num_mul (Fin x) scale \<noteq> NaN" by (simp add: s)
  from clamp_spec [OF this, of "int pw - 1"] assms(2)
  obtain i where i: "fx = Fin (of_int i)"
      "clamp_into 0 (of_nat pw - 1) (nearest_integer (num_mul (Fin x) scale)) = Some (of_int i)"
      "0 \<le> i" "i \<le> int pw - 1"
    unfolding fx_def hi hi' by auto
  have i53: "\<bar>int pw - i\<bar> < 2 ^ 53" using i(3,4) assms(3) by simp
  have rest: "num_sub (num pw) fx = Fin (of_nat pw - of_int i)"
    using fl_of_int [OF i53] by (simp add: num_def i(1))
  have b: "(0::rat) \<le> of_int i" "(of_int i :: rat) \<le> of_nat pw - 1"
    using i(3,4) by (simp_all only: hi' of_int_le_iff of_int_0_le_iff)
  show ?thesis
    by (intro exI [of _ "of_int i"] conjI i(1) i(2) b) (simp only: rest smaller_spec)
qed

lemma finite_numE:
  assumes "finite_num v"
  obtains a where "v = Fin a"
  using assms by (cases v) auto

lemma map_selection_spec:
  assumes "finite_num (b_x sel)" "finite_num (b_y sel)" "0 < fst vp" "0 < snd vp"
    "0 < unat (bm_width raw)" "0 < unat (bm_height raw)"
  shows "spec_map sel vp raw = Some (map_selection sel vp raw)
     \<and> in_interval (b_x (map_selection sel vp raw)) 0 (of_nat (unat (bm_width raw)) - 1)
     \<and> in_interval (b_y (map_selection sel vp raw)) 0 (of_nat (unat (bm_height raw)) - 1)"
proof -
  from assms(1) obtain x where x: "b_x sel = Fin x" by (rule finite_numE)
  from assms(2) obtain y where y: "b_y sel = Fin y" by (rule finite_numE)
  from axis_spec [OF assms(3) assms(5) unat_32_bound, of x "num_mul (b_width sel) (num_div (num (unat (bm_width raw))) (num (fst vp)))"]
  obtain cx where cx: "clamp_into 0 (of_nat (unat (bm_width raw)) - 1)
        (nearest_integer (num_mul (Fin x) (num_div (num (unat (bm_width raw))) (num (fst vp))))) = Some cx"
     "Math_max (Fin 0) (Math_min (Math_round (num_mul (Fin x) (num_div (num (unat (bm_width raw))) (num (fst vp)))))
      (num_sub (num (unat (bm_width raw))) (Fin 1))) = Fin cx"
     "0 \<le> cx" "cx \<le> of_nat (unat (bm_width raw)) - 1"
     "Math_min (Math_round (num_mul (b_width sel) (num_div (num (unat (bm_width raw))) (num (fst vp)))))
         (num_sub (num (unat (bm_width raw))) (Fin cx))
       = smaller_of (nearest_integer (num_mul (b_width sel) (num_div (num (unat (bm_width raw))) (num (fst vp)))))
           (Fin (of_nat (unat (bm_width raw)) - cx))"
    by metis
  from axis_spec [OF assms(4) assms(6) unat_32_bound, of y "num_mul (b_height sel) (num_div (num (unat (bm_height raw))) (num (snd vp)))"]
  obtain cy where cy: "clamp_into 0 (of_nat (unat (bm_height raw)) - 1)
        (nearest_integer (num_mul (Fin y) (num_div (num (unat (bm_height raw))) (num (snd vp))))) = Some cy"
     "Math_max (Fin 0) (Math_min (Math_round (num_mul (Fin y) (num_div (num (unat (bm_height raw))) (num (snd vp)))))
      (num_sub (num (unat (bm_height raw))) (Fin 1))) = Fin cy"
     "0 \<le> cy" "cy \<le> of_nat (unat (bm_height raw)) - 1"
     "Math_min (Math_round (num_mul (b_height sel) (num_div (num (unat (bm_height raw))) (num (snd vp)))))
         (num_sub (num (unat (bm_height raw))) (Fin cy))
       = smaller_of (nearest_integer (num_mul (b_height sel) (num_div (num (unat (bm_height raw))) (num (snd vp)))))
           (Fin (of_nat (unat (bm_height raw)) - cy))"
    by metis
  have m: "map_selection sel vp raw = \<lparr>b_x = Fin cx, b_y = Fin cy,
      b_width = smaller_of (nearest_integer (num_mul (b_width sel) (num_div (num (unat (bm_width raw))) (num (fst vp)))))
           (Fin (of_nat (unat (bm_width raw)) - cx)),
      b_height = smaller_of (nearest_integer (num_mul (b_height sel) (num_div (num (unat (bm_height raw))) (num (snd vp)))))
           (Fin (of_nat (unat (bm_height raw)) - cy))\<rparr>"
    unfolding map_selection_def processImage_region_def Let_def x y cx(2) cy(2) cx(5) cy(5) ..
  have s: "spec_map sel vp raw = Some \<lparr>b_x = Fin cx, b_y = Fin cy,
      b_width = smaller_of (nearest_integer (num_mul (b_width sel) (num_div (num (unat (bm_width raw))) (num (fst vp)))))
           (Fin (of_nat (unat (bm_width raw)) - cx)),
      b_height = smaller_of (nearest_integer (num_mul (b_height sel) (num_div (num (unat (bm_height raw))) (num (snd vp)))))
           (Fin (of_nat (unat (bm_height raw)) - cy))\<rparr>"
    unfolding spec_map_def Let_def x y num_def [symmetric] cx(1) cy(1) by (simp only: option.case)
  show ?thesis unfolding s unfolding m using cx(3,4) cy(3,4) by (simp del: of_nat_unat)
qed





text \<open>
  C4 (amended). For every selection with non-negative width and height within the
  viewport bounds, every viewport with positive logical width and height, and every raw
  capture with positive pixel dimensions, the mapped crop region lies fully within
  \<open>[0, pixelWidth) x [0, pixelHeight)\<close>: its \<open>x\<close> and \<open>y\<close> are in range, its width and height
  are not negative, \<open>x + width \<le> pixelWidth\<close> and \<open>y + height \<le> pixelHeight\<close>.
\<close>

theorem crop_region_within_capture:
  assumes "selection_in_viewport sel vp" "0 < fst vp" "0 < snd vp"
    and "0 < unat (bm_width raw)" "0 < unat (bm_height raw)"
  shows "region_within (map_selection sel vp raw) (unat (bm_width raw)) (unat (bm_height raw))"
proof -
  from assms(1) obtain x w where xw: "b_x sel = Fin x" "b_width sel = Fin w" "0 \<le> w"
    unfolding selection_in_viewport_def by (auto elim: axis_in_viewportE)
  from assms(1) obtain y h where yh: "b_y sel = Fin y" "b_height sel = Fin h" "0 \<le> h"
    unfolding selection_in_viewport_def by (auto elim: axis_in_viewportE)
  note ax = axis_within [OF xw(3) assms(2) assms(4) unat_32_bound, of x]
  note ay = axis_within [OF yh(3) assms(3) assms(5) unat_32_bound, of y]
  show ?thesis
    unfolding region_within_def map_selection_def processImage_region_def Let_def
    using ax ay by (simp add: xw yh)
qed

theorem crop_region_within_capture_witness:
  "selection_in_viewport (scenario_selection 100) (1280, 720)
   \<and> 0 < unat (bm_width retina_bitmap) \<and> 0 < unat (bm_height retina_bitmap)
   \<and> region_within (map_selection (scenario_selection 100) (1280, 720) retina_bitmap) 2560 1440"
proof -
  have s: "selection_in_viewport (scenario_selection 100) (1280, 720)"
    by (simp add: selection_in_viewport_def scenario_selection_def)
  have w: "0 < unat (bm_width retina_bitmap)" and h: "0 < unat (bm_height retina_bitmap)"
    by (simp_all add: retina_bitmap_def)
  have d: "unat (bm_width retina_bitmap) = 2560" "unat (bm_height retina_bitmap) = 1440"
    by (simp_all add: retina_bitmap_def)
  from crop_region_within_capture [OF s _ _ w h] s w h show ?thesis
    unfolding d by simp
qed

theorem crop_region_within_capture_counterexample:
  "selection_in_viewport zero_selection (0, 0)
   \<and> 0 < unat (bm_width sample_bitmap) \<and> 0 < unat (bm_height sample_bitmap)
   \<and> b_x (map_selection zero_selection (0, 0) sample_bitmap) = NaN
   \<and> \<not> region_within (map_selection zero_selection (0, 0) sample_bitmap)
         (unat (bm_width sample_bitmap)) (unat (bm_height sample_bitmap))"
  by (simp add: map_selection_def processImage_region_def Let_def num_def sample_bitmap_def
      selection_in_viewport_def region_within_def zero_selection_def)

section \<open>Properties of the reported reduction\<close>

lemma success_details:
  assumes "out_compressed (fst (compressImage P cfg net now imageBlob st))"
  shows "out_details (fst (compressImage P cfg net now imageBlob st))
     = Sizes (length imageBlob) (length (out_blob (fst (compressImage P cfg net now imageBlob st))))
         (reduction (length (out_blob (fst (compressImage P cfg net now imageBlob st))))
            (length imageBlob))"
  using assms
  by (auto simp: compressImage_def compressImage_try_def Let_def split: prod.splits sum.splits)

lemma toFixed1_Fin:
  "\<exists>n. toFixed1 (Fin p)
         = (if p < 0 then ''-'' else []) @ show_nat (n div 10) @ ''.'' @ show_nat (n mod 10)
       \<and> \<bar>of_nat n / 10 - \<bar>p\<bar>\<bar> \<le> 1 / 20"
proof -
  define v where "v = \<bar>p\<bar> * 10 + 1 / 2"
  define n where "n = nat \<lfloor>v\<rfloor>"
  have v0: "0 \<le> v" by (simp add: v_def)
  then have "0 \<le> \<lfloor>v\<rfloor>" by simp
  then have n: "(of_nat n :: rat) = of_int \<lfloor>v\<rfloor>" by (simp add: n_def)
  have b: "of_int \<lfloor>v\<rfloor> \<le> v" "v < of_int \<lfloor>v\<rfloor> + 1" by linarith+
  have "\<bar>of_nat n / 10 - \<bar>p\<bar>\<bar> \<le> 1 / 20"
    unfolding n using b unfolding v_def by linarith
  moreover have "toFixed1 (Fin p)
         = (if p < 0 then ''-'' else []) @ show_nat (n div 10) @ ''.'' @ show_nat (n mod 10)"
    by (simp add: toFixed1_def Let_def n_def v_def)
  ultimately show ?thesis by blast
qed

lemma reduction_accuracy:
  fixes c o' :: nat
  assumes "0 < o'" "c \<le> o'"
  shows "\<exists>p. num_mul (num_sub (Fin 1) (num_div (num c) (num o'))) (Fin 100) = Fin p
           \<and> \<bar>p - (1 - of_nat c / of_nat o') * 100\<bar> \<le> 264 / 2 ^ 53"
proof -
  define q :: rat where "q = of_nat c / of_nat o'"
  define u :: rat where "u = 1 / 2 ^ 53"
  have u0: "0 \<le> u" and u1: "u \<le> 1 / 100" by (simp_all add: u_def)
  have p1: "(2::rat) powi (0 - 53) = u" by (simp add: u_def power_int_minus inverse_eq_divide)
  have p2: "(2::rat) powi (6 - 53) = 64 * u" by (simp add: u_def power_int_minus inverse_eq_divide)
  have q01: "0 \<le> q" "q \<le> 1" using assms by (simp_all add: q_def divide_le_eq)
  have "\<bar>q\<bar> < 2 powi (0 + 1)" using q01 by simp
  from fl_abs_error [OF this] obtain q1 where q1: "fl q = Fin q1" "\<bar>q1 - q\<bar> \<le> u"
    unfolding p1 by auto
  have "\<bar>1 - q1\<bar> < 2" using q01 q1(2) u1 by linarith
  then have "\<bar>1 - q1\<bar> < 2 powi (0 + 1)" by simp
  from fl_abs_error [OF this] obtain d where d: "fl (1 - q1) = Fin d" "\<bar>d - (1 - q1)\<bar> \<le> u"
    unfolding p1 by auto
  have "\<bar>d\<bar> \<le> 1 + 2 * u" using d(2) q1(2) q01 by linarith
  then have "\<bar>d\<bar> * 100 < 128" using u1 by linarith
  then have "\<bar>d * 100\<bar> < 2 powi (6 + 1)" by (simp add: abs_mult)
  from fl_abs_error [OF this] obtain p where p: "fl (d * 100) = Fin p" "\<bar>p - d * 100\<bar> \<le> 64 * u"
    unfolding p2 by auto
  have e1: "p - d * 100 \<le> 64 * u" "d * 100 - p \<le> 64 * u" using p(2) by linarith+
  have e2: "d - (1 - q1) \<le> u" "(1 - q1) - d \<le> u" using d(2) by linarith+
  have e3: "q1 - q \<le> u" "q - q1 \<le> u" using q1(2) by linarith+
  define x where "x = (1 - q) * 100"
  define y where "y = d * 100"
  have xy: "x = 100 - 100 * q" "y = 100 * d" by (simp_all add: x_def y_def algebra_simps)
  have "p - x \<le> 264 * u" using e1 e2 e3 xy unfolding y_def [symmetric] by linarith
  moreover have "x - p \<le> 264 * u" using e1 e2 e3 xy unfolding y_def [symmetric] by linarith
  ultimately have "\<bar>p - (1 - q) * 100\<bar> \<le> 264 * u" unfolding x_def by linarith
  then have "\<bar>p - (1 - q) * 100\<bar> \<le> 264 / 2 ^ 53" by (simp add: u_def)
  moreover have "num_mul (num_sub (Fin 1) (num_div (num c) (num o'))) (Fin 100) = Fin p"
    using assms(1) q1(1) d(1) p(1) by (simp add: num_def q_def)
  ultimately show ?thesis unfolding q_def by blast
qed

lemma scenario_E_div: "num_div (num 12000) (num 50000) = Fin (8646911284551352 / 2^55)"
  unfolding num_def
  by (simp, subst fl_eval [where e = "-3"]) (simp_all add: round_even_numeral power_int_minus)

lemma scenario_E_sub: "num_sub (Fin 1) (Fin (8646911284551352 / 2^55)) = Fin (6845471433603154 / 2^53)"
  unfolding num_sub.simps
  by (subst fl_eval [where e = "-1"]) (simp_all add: round_even_numeral power_int_minus)

lemma scenario_E_mul: "num_mul (Fin (6845471433603154 / 2^53)) (Fin 100) = Fin 76"
  unfolding num_mul.simps
  by (subst fl_eval [where e = "6"]) (simp_all add: round_even_numeral power_int_minus)

lemma toFixed1_76: "toFixed1 (Fin 76) = ''76.0''"
  by (simp add: toFixed1_def Let_def show_nat.simps digit_char_def floor_numeral_div)

lemma reduction_E: "reduction 12000 50000 = ''76.0%''"
  unfolding reduction_def scenario_E_div scenario_E_sub scenario_E_mul toFixed1_76 by simp

lemma tie_div: "num_div (num 11600) (num 32000) = Fin (6530219459687219 / 2^54)"
  unfolding num_def
  by (simp, subst fl_eval [where e = "-2"]) (simp_all add: round_even_numeral power_int_minus)

lemma tie_sub: "num_sub (Fin 1) (Fin (6530219459687219 / 2^54)) = Fin (2871044762448691 / 2^52)"
  unfolding num_sub.simps
  by (subst fl_eval [where e = "-1"]) (simp_all add: round_even_numeral power_int_minus)

lemma tie_mul: "num_mul (Fin (2871044762448691 / 2^52)) (Fin 100) = Fin (8972014882652159 / 2^47)"
  unfolding num_mul.simps
  by (subst fl_eval [where e = "5"]) (simp_all add: round_even_numeral power_int_minus)

lemma toFixed1_tie: "toFixed1 (Fin (8972014882652159 / 2^47)) = ''63.7''"
  by (simp add: toFixed1_def Let_def show_nat.simps digit_char_def floor_numeral_div)

lemma reduction_tie: "reduction 11600 32000 = ''63.7%''"
  unfolding reduction_def tie_div tie_sub tie_mul toFixed1_tie by simp

lemma sample_compression:
  "fst (compressImage sample_platform sample_config (sample_network (blob_of_size c)) 1000
      (blob_of_size n) empty_state)
   = \<lparr>out_blob = blob_of_size c, out_compressed = True, out_error = None,
       out_details = Sizes n c (reduction c n)\<rparr>"
  by (simp add: compressImage_def compressImage_try_def getAuthToken_def valid_cached_def
        empty_state_def sample_config_def sample_network_def token_reply_def json_reply_def
        blob_reply_def send_def compress_start_def compress_upload_def compress_process_def
        compress_download_def Let_def)

text \<open>
  C7 (amended). For every successful compression the reported reduction is the text
  \<open>toFixed(1)\<close> gives for the double-precision value of
  \<open>(1 - compressedSize / originalSize) * 100\<close>, followed by \<open>"%"\<close>. When
  \<open>0 < originalSize\<close> and \<open>compressedSize \<le> originalSize\<close> that double is within
  \<open>264 / 2^53\<close> of the exact percentage, and the printed number, with its one decimal, is
  within \<open>0.05\<close> of the double (so it may be the lower neighbour where the exact percentage
  is a tie). In particular \<open>originalSize = 50000\<close> and \<open>compressedSize = 12000\<close> give
  \<open>"76.0%"\<close>.
\<close>

theorem reduction_reported:
  assumes "out_compressed (fst (compressImage P cfg net now imageBlob st))"
  shows "(let out = fst (compressImage P cfg net now imageBlob st);
             originalSize = length imageBlob;
             compressedSize = length (out_blob out);
             percent = num_mul (num_sub (Fin 1) (num_div (num compressedSize) (num originalSize)))
                         (Fin 100)
         in out_details out = Sizes originalSize compressedSize (toFixed1 percent @ ''%'')
          \<and> (0 < originalSize \<and> compressedSize \<le> originalSize \<longrightarrow>
               (\<exists>p n. percent = Fin p
                  \<and> \<bar>p - (1 - of_nat compressedSize / of_nat originalSize) * 100\<bar> \<le> 264 / 2 ^ 53
                  \<and> toFixed1 percent = (if p < 0 then ''-'' else []) @ show_nat (n div 10) @ ''.''
                       @ show_nat (n mod 10)
                  \<and> \<bar>of_nat n / 10 - \<bar>p\<bar>\<bar> \<le> 1 / 20)))
       \<and> reduction 12000 50000 = ''76.0%''"
proof -
  let ?out = "fst (compressImage P cfg net now imageBlob st)"
  let ?o = "length imageBlob"
  let ?c = "length (out_blob ?out)"
  let ?v = "num_mul (num_sub (Fin 1) (num_div (num ?c) (num ?o))) (Fin 100)"
  have 1: "out_details ?out = Sizes ?o ?c (toFixed1 ?v @ ''%'')"
    using success_details [OF assms] by (simp add: reduction_def)
  have 2: "\<exists>p n. ?v = Fin p
      \<and> \<bar>p - (1 - of_nat ?c / of_nat ?o) * 100\<bar> \<le> 264 / 2 ^ 53
      \<and> toFixed1 ?v = (if p < 0 then ''-'' else []) @ show_nat (n div 10) @ ''.''
            @ show_nat (n mod 10)
      \<and> \<bar>of_nat n / 10 - \<bar>p\<bar>\<bar> \<le> 1 / 20"
    if "0 < ?o \<and> ?c \<le> ?o"
  proof -
    from that reduction_accuracy [of ?o ?c] obtain p where p: "?v = Fin p"
      "\<bar>p - (1 - of_nat ?c / of_nat ?o) * 100\<bar> \<le> 264 / 2 ^ 53" by blast
    from toFixed1_Fin [of p] obtain n where n: "toFixed1 (Fin p)
       = (if p < 0 then ''-'' else []) @ show_nat (n div 10) @ ''.'' @ show_nat (n mod 10)"
      "\<bar>of_nat n / 10 - \<bar>p\<bar>\<bar> \<le> 1 / 20" by blast
    from p n show ?thesis by (intro exI [of _ p] exI [of _ n]) simp
  qed
  from 1 2 reduction_E show ?thesis unfolding Let_def by blast
qed

theorem reduction_reported_witness:
  "out_compressed (fst (compressImage sample_platform sample_config
      (sample_network (blob_of_size 12000)) 1000 (blob_of_size 50000) empty_state))
   \<and> out_details (fst (compressImage sample_platform sample_config
      (sample_network (blob_of_size 12000)) 1000 (blob_of_size 50000) empty_state))
     = Sizes 50000 12000 ''76.0%''"
proof -
  let ?out = "fst (compressImage sample_platform sample_config
      (sample_network (blob_of_size 12000)) 1000 (blob_of_size 50000) empty_state)"
  have c: "out_compressed ?out" by (simp add: sample_compression)
  have b: "out_blob ?out = blob_of_size 12000" by (simp add: sample_compression)
  from reduction_reported [OF c]
  have "out_details ?out = Sizes (length (blob_of_size 50000)) (length (out_blob ?out))
      (toFixed1 (num_mul (num_sub (Fin 1) (num_div (num (length (out_blob ?out)))
         (num (length (blob_of_size 50000))))) (Fin 100)) @ ''%'')"
    unfolding Let_def by blast
  then have "out_details ?out = Sizes 50000 12000
      (toFixed1 (num_mul (num_sub (Fin 1) (num_div (num 12000) (num 50000))) (Fin 100)) @ ''%'')"
    unfolding b length_blob_of_size .
  then have "out_details ?out = Sizes 50000 12000 ''76.0%''"
    unfolding scenario_E_div scenario_E_sub scenario_E_mul toFixed1_76 by simp
  with c show ?thesis by blast
qed

theorem reduction_reported_counterexample:
  "out_details (fst (compressImage sample_platform sample_config
      (sample_network (blob_of_size 11600)) 1000 (blob_of_size 32000) empty_state))
     = Sizes 32000 11600 ''63.7%''
   \<and> (1 - 11600 / 32000) * 100 = (255 / 4 :: rat)
   \<and> spec_reduction 11600 32000 = 638 / 10"
  by (simp add: sample_compression reduction_tie spec_reduction_def round_def floor_numeral_div)

end
